theory Spec2Isabelle
  imports Main "HOL-Library.Sublist" "HOL-Library.AList" "HOL-Library.Multiset"
begin

section \<open>The logger of \<^verbatim>\<open>src/index.js\<close>: data model and operations\<close>

text \<open>
  The repository is one JavaScript class, \<^verbatim>\<open>Log\<close>. Its methods are embedded as HOL
  functions over an explicit state. Method names that start with an underscore in the
  source (\<^verbatim>\<open>_pushLog\<close>, \<^verbatim>\<open>_render\<close>, \<^verbatim>\<open>_dateToString\<close>, ...) lose it here, since an
  Isabelle name starts with a letter. JavaScript strings are modelled as \<^typ>\<open>string\<close>;
  the arguments of the public methods are strings, as their documentation comments say.
\<close>

subsection \<open>Strings and numbers\<close>

text \<open>
  \<^verbatim>\<open>String(n)\<close> for an integral Number: decimal digits, with a leading minus sign for a
  negative value. Every number the logger prints is a field of a \<^verbatim>\<open>Date\<close>.
\<close>

definition digit :: "nat \<Rightarrow> char" where
  "digit n = ''0123456789'' ! n"

function digits :: "int \<Rightarrow> string" where
  "digits n = (if n < 10 then [digit (nat n)] else digits (n div 10) @ [digit (nat (n mod 10))])"
  by pat_completeness auto
termination
  by (relation "measure nat") auto

declare digits.simps [simp del]

definition numToString :: "int \<Rightarrow> string" where
  "numToString i = (if i < 0 then CHR ''-'' # digits (- i) else digits i)"

text \<open>
  \<^verbatim>\<open>String.prototype.replace(pattern, replacement)\<close> with a string pattern: only the
  first occurrence of the pattern is replaced, and a pattern that does not occur leaves
  the string as it is. (The replacement strings of this program are decimal numerals, so
  the \<^verbatim>\<open>$\<close> patterns of a replacement string never arise.)
\<close>

fun replace :: "string \<Rightarrow> string \<Rightarrow> string \<Rightarrow> string" where
  "replace pat rep [] = (if pat = [] then rep else [])"
| "replace pat rep (c # cs) =
     (if prefix pat (c # cs) then rep @ drop (length pat) (c # cs)
      else c # replace pat rep cs)"

text \<open>
  The own properties of an ordinary object are enumerated with the array indices first,
  in ascending numeric order, and the other string keys after them, in the order of
  their creation. An array index is a canonical numeral (no sign, no leading zero) below
  \<open>2\<^sup>3\<^sup>2 - 1\<close>.
\<close>

definition digitVal :: "char \<Rightarrow> int" where
  "digitVal c = int (length (takeWhile (\<lambda>d. d \<noteq> c) ''0123456789''))"

definition parseInt :: "string \<Rightarrow> int" where
  "parseInt s = foldl (\<lambda>a c. 10 * a + digitVal c) 0 s"

definition isArrayIndex :: "string \<Rightarrow> bool" where
  "isArrayIndex s \<longleftrightarrow>
     s \<noteq> [] \<and> list_all (\<lambda>c. c \<in> set ''0123456789'') s \<and>
     numToString (parseInt s) = s \<and> parseInt s < 4294967295"

subsection \<open>Dates\<close>

text \<open>
  A \<^verbatim>\<open>Date\<close> object, as the program observes it: through \<^verbatim>\<open>getTime()\<close> (milliseconds
  since the epoch) and the local calendar getters. \<^verbatim>\<open>getMonth()\<close> counts from 0.
\<close>

record jsdate =
  getTime :: int
  getFullYear :: int
  getMonth :: int
  getDate :: int
  getHours :: int
  getMinutes :: int
  getSeconds :: int

text \<open>\<^verbatim>\<open>_dateToString(dateTime, template)\<close>, lines 342-364.\<close>

definition dateToString :: "jsdate \<Rightarrow> string \<Rightarrow> string" where
  "dateToString dateTime template =
     (let day = getDate dateTime;
          day = (if day < 10 then ''0'' @ numToString day else numToString day);
          month = getMonth dateTime + 1;
          month = (if month < 10 then ''0'' @ numToString month else numToString month);
          year = getFullYear dateTime;
          hours = getHours dateTime;
          minutes = getMinutes dateTime;
          seconds = getSeconds dateTime;
          template = replace ''dd'' day template;
          template = replace ''mm'' month template;
          template = replace ''yyyy'' (numToString year) template;
          template = replace ''H'' (numToString hours) template;
          template = replace ''i'' (numToString minutes) template;
          template = replace ''s'' (numToString seconds) template
      in template)"

subsection \<open>Entries, sections and the logger\<close>

text \<open>
  A log entry is the object \<^verbatim>\<open>{type, value, dateTime}\<close> of \<^verbatim>\<open>_getLogObject\<close>; a section is
  the object literal of \<^verbatim>\<open>createSection\<close>. The field \<open>elapsed\<close> starts as the empty
  string (\<open>None\<close> here) and holds a number of milliseconds once the section is closed.
\<close>

record entry =
  etype :: string
  evalue :: string
  dateTime :: string

record sectionRec =
  key :: string
  name :: string
  sec_start :: jsdate
  sec_end :: jsdate
  elapsed :: "int option"
  logs :: "entry list"

text \<open>
  A \<^verbatim>\<open>TypeError\<close> is what JavaScript raises when a property of \<^verbatim>\<open>undefined\<close> is read or
  written; \<open>FsError\<close> stands for any exception of the \<^verbatim>\<open>fs\<close> module.
\<close>

datatype exn = TypeError | FsError

text \<open>
  The \<^verbatim>\<open>fs\<close> module of Node.js is not part of the repository: the three functions the
  logger calls are parameters of the model, over any type \<open>'f\<close> of storage states.
  \<^verbatim>\<open>existsSync\<close> never raises; \<^verbatim>\<open>mkdirSync\<close> and \<^verbatim>\<open>writeFileSync\<close> raise (\<open>None\<close>) or
  return the new storage.
\<close>

record 'f fsapi =
  existsSync :: "'f \<Rightarrow> string \<Rightarrow> bool"
  mkdirSync :: "'f \<Rightarrow> string \<Rightarrow> 'f option"
  writeFileSync :: "'f \<Rightarrow> string \<Rightarrow> string \<Rightarrow> 'f option"

text \<open>
  The state: the fields of the \<^verbatim>\<open>Log\<close> object and the part of its environment it reads
  and writes.

  \<^item> \<open>log_start\<close> and \<open>log_end\<close> are \<^verbatim>\<open>this.start\<close> and \<^verbatim>\<open>this.end\<close> (\<^verbatim>\<open>null\<close> until the first
    save).
  \<^item> \<open>sections\<close> holds the own properties of the object \<^verbatim>\<open>this.sections\<close>, in the order of
    their creation: assigning to an existing key keeps its place, a new key goes last
    (\<^const>\<open>AList.update\<close>).
  \<^item> \<^verbatim>\<open>this.sections\<close> is created by \<^verbatim>\<open>{}\<close>, so it inherits from \<^verbatim>\<open>Object.prototype\<close>, and
    an assignment to its key \<^verbatim>\<open>"__proto__"\<close> does not create a property: it replaces the
    prototype of \<^verbatim>\<open>this.sections\<close> by the assigned object. \<open>proto\<close> is that object, once
    assigned.
  \<^item> \<open>objproto_end\<close> tells whether \<^verbatim>\<open>Object.prototype\<close> has got a property \<^verbatim>\<open>end\<close> (see
    \<open>closeSection\<close>).
  \<^item> \<open>disk\<close> is the storage, \<open>clock\<close> the readings \<^verbatim>\<open>new Date()\<close> returns, one after the
    other, and \<open>ticks\<close> the number of readings taken so far.
\<close>

record 'f log =
  title :: string
  description :: string
  logsPath :: string
  log_start :: jsdate
  log_end :: "jsdate option"
  sections :: "(string \<times> sectionRec) list"
  proto :: "sectionRec option"
  fs :: "'f fsapi"
  objproto_end :: bool
  disk :: 'f
  clock :: "nat \<Rightarrow> jsdate"
  ticks :: nat

text \<open>\<^verbatim>\<open>new Date()\<close>: the next reading of the clock.\<close>

definition now :: "'f log \<Rightarrow> jsdate" where
  "now w = clock w (ticks w)"

definition tick :: "'f log \<Rightarrow> 'f log" where
  "tick w = w\<lparr>ticks := ticks w + 1\<rparr>"

text \<open>The constructor, lines 14-25, in a process whose \<^verbatim>\<open>Object.prototype\<close> is untouched.\<close>

definition newLog ::
  "string \<Rightarrow> string \<Rightarrow> string \<Rightarrow> 'f fsapi \<Rightarrow> 'f \<Rightarrow> (nat \<Rightarrow> jsdate) \<Rightarrow> 'f log" where
  "newLog t d p api dk clk =
     \<lparr>title = t, description = d, logsPath = p, log_start = clk 0, log_end = None,
      sections = [], proto = None, fs = api, objproto_end = False, disk = dk,
      clock = clk, ticks = 1\<rparr>"

text \<open>
  \<^verbatim>\<open>this.sections[k]\<close>, when it is a section object: an own property, or the prototype
  itself under the key \<^verbatim>\<open>"__proto__"\<close>. Under every other key the lookup gives
  \<^verbatim>\<open>undefined\<close> or a value found on the prototype chain (a function of
  \<^verbatim>\<open>Object.prototype\<close>, a field of \<open>proto\<close>), none of which has a property \<^verbatim>\<open>logs\<close> or
  \<^verbatim>\<open>start\<close>.
\<close>

definition section_at :: "'f log \<Rightarrow> string \<Rightarrow> sectionRec option" where
  "section_at w k =
     (case map_of (sections w) k of
        Some s \<Rightarrow> Some s
      | None \<Rightarrow> if k = ''__proto__'' then proto w else None)"

text \<open>A write to a field of the object \<^verbatim>\<open>this.sections[k]\<close> refers to (objects are shared).\<close>

definition put_section :: "string \<Rightarrow> sectionRec \<Rightarrow> 'f log \<Rightarrow> 'f log" where
  "put_section k s w =
     (if map_of (sections w) k = None then w\<lparr>proto := Some s\<rparr>
      else w\<lparr>sections := AList.update k s (sections w)\<rparr>)"

text \<open>
  \<^verbatim>\<open>for (var i in this.sections)\<close> visits the own properties in the order of JavaScript,
  and after them the enumerable properties of the prototype chain that no own property
  shadows: the six fields of \<open>proto\<close>, or the \<^verbatim>\<open>end\<close> of \<^verbatim>\<open>Object.prototype\<close>.
\<close>

definition for_in :: "'f log \<Rightarrow> (string \<times> sectionRec) list" where
  "for_in w =
     sort_key (\<lambda>(k, s). parseInt k) (filter (\<lambda>(k, s). isArrayIndex k) (sections w)) @
     filter (\<lambda>(k, s). \<not> isArrayIndex k) (sections w)"

definition inherited :: "'f log \<Rightarrow> string list" where
  "inherited w =
     filter (\<lambda>f. map_of (sections w) f = None)
       (case proto w of
          Some r \<Rightarrow> [''key'', ''name'', ''start'', ''end'', ''elapsed'', ''logs'']
        | None \<Rightarrow> if objproto_end w then [''end''] else [])"

subsection \<open>Rendering\<close>

text \<open>
  The text of the template literal of \<^verbatim>\<open>_render\<close> (lines 183-331), cut at its
  interpolations. Lines are indented with tabs.
\<close>

definition tabs :: "nat \<Rightarrow> string" where
  "tabs n = replicate n (CHR 0x09)"

definition nl :: string where
  "nl = [CHR 0x0A]"

definition doc_open :: string where
  \<open>doc_open =
     nl @
     tabs 3 @ ''<html>'' @ nl @
     tabs 4 @ ''<head>'' @ nl @
     tabs 5 @ ''<title>'' @ nl @
     tabs 6\<close>

definition title_sep :: string where
  \<open>title_sep =
     '' - ''\<close>

definition doc_style_script :: string where
  \<open>doc_style_script =
     nl @
     tabs 5 @ ''</title>'' @ nl @
     tabs 5 @ ''<style>'' @ nl @
     tabs 6 @ ''.INFO{'' @ nl @
     tabs 7 @ ''color: green;'' @ nl @
     tabs 6 @ ''}'' @ nl @
     nl @
     tabs 6 @ ''.ERROR{'' @ nl @
     tabs 7 @ ''color: red;'' @ nl @
     tabs 6 @ ''}'' @ nl @
     nl @
     tabs 6 @ ''.DEBUG{'' @ nl @
     tabs 7 @ ''color: #0790b9;'' @ nl @
     tabs 6 @ ''}'' @ nl @
     nl @
     tabs 6 @ ''.WARNING{'' @ nl @
     tabs 7 @ ''color: yellow;'' @ nl @
     tabs 6 @ ''}'' @ nl @
     tabs 5 @ ''</style>'' @ nl @
     tabs 5 @ ''<meta charset="utf-8" />'' @ nl @
     tabs 5 @ ''<script src="https://ajax.googleapis.com/ajax/libs/jquery/3.1.1/jquery.min.js"></script>'' @ nl @
     tabs 5 @ ''<script>'' @ nl @
     tabs 6 @ ''function changeConfig(){'' @ nl @
     tabs 7 @ ''if ($('#infocheck').is(':checked')) {'' @ nl @
     tabs 8 @ ''$('.INFO').show();'' @ nl @
     tabs 7 @ ''}else{'' @ nl @
     tabs 8 @ ''$('.INFO').hide();'' @ nl @
     tabs 7 @ ''}'' @ nl @
     nl @
     tabs 7 @ ''if ($('#debugcheck').is(':checked')) {'' @ nl @
     tabs 8 @ ''$('.DEBUG').show();'' @ nl @
     tabs 7 @ ''}else{'' @ nl @
     tabs 8 @ ''$('.DEBUG').hide();'' @ nl @
     tabs 7 @ ''}'' @ nl @
     nl @
     tabs 7 @ ''if ($('#warningcheck').is(':checked')) {'' @ nl @
     tabs 8 @ ''$('.WARNING').show();'' @ nl @
     tabs 7 @ ''}else{'' @ nl @
     tabs 8 @ ''$('.WARNING').hide();'' @ nl @
     tabs 7 @ ''}'' @ nl @
     nl @
     tabs 7 @ ''if ($('#errorcheck').is(':checked')) {'' @ nl @
     tabs 8 @ ''$('.ERROR').show();'' @ nl @
     tabs 7 @ ''}else{'' @ nl @
     tabs 8 @ ''$('.ERROR').hide();'' @ nl @
     tabs 7 @ ''}'' @ nl @
     nl @
     tabs 7 @ ''if (window.autoRefreshInterval !== undefined){'' @ nl @
     tabs 8 @ ''clearInterval(window.autoRefreshInterval);'' @ nl @
     tabs 7 @ ''}'' @ nl @
     nl @
     tabs 7 @ ''if ($('#refreshconfig').val() > 0){'' @ nl @
     tabs 8 @ ''window.autoRefreshInterval = setInterval(function(){location.reload();}, $('#refreshconfig').val()*1000);'' @ nl @
     tabs 7 @ ''}'' @ nl @
     tabs 7 @ ''localStorage.refreshConfig = $('#refreshconfig').val();'' @ nl @
     nl @
     tabs 7 @ ''$(".section").show();'' @ nl @
     tabs 7 @ ''if ($('#hidecategoriescheck').is(':checked')) '' @ nl @
     tabs 8 @ ''$(".section:not(:has(div.islog:visible))").hide();'' @ nl @
     tabs 7 @ nl @
     tabs 6 @ ''}'' @ nl @
     nl @
     tabs 6 @ ''$( document ).ready(function() {'' @ nl @
     tabs 7 @ ''if (localStorage.refreshConfig !== undefined && localStorage.refreshConfig !== '0'){'' @ nl @
     tabs 8 @ ''$('#refreshconfig option[value="'+localStorage.refreshConfig+'"]').attr("selected","selected");'' @ nl @
     tabs 7 @ ''}'' @ nl @
     nl @
     tabs 7 @ ''changeConfig();'' @ nl @
     tabs 6 @ ''});'' @ nl @
     nl @
     tabs 5 @ ''</script>'' @ nl @
     tabs 4 @ ''</head>'' @ nl @
     tabs 4 @ ''<body>'' @ nl @
     tabs 5 @ ''<h1>''\<close>

definition h1_close :: string where
  \<open>h1_close =
     '' log</h1>'' @ nl @
     tabs 5 @ ''<p>''\<close>

definition summary_open :: string where
  \<open>summary_open =
     ''</p>'' @ nl @
     tabs 5 @ ''<h2 id="summary">Summary</h2>'' @ nl @
     tabs 5 @ ''<p>Started at: ''\<close>

definition finished_open :: string where
  \<open>finished_open =
     ''</p>'' @ nl @
     tabs 5 @ ''<p>Finished at: ''\<close>

definition controls :: string where
  \<open>controls =
     ''</p>'' @ nl @
     tabs 5 @ ''<div style="position: fixed; right: 50px; background-color:#e2e2e2;">'' @ nl @
     tabs 6 @ ''<div>'' @ nl @
     tabs 7 @ ''<select id="refreshconfig" onchange="changeConfig()">'' @ nl @
     tabs 8 @ ''<option value="0">No auto-refresh</option>'' @ nl @
     tabs 8 @ ''<option value="5">Refresh every 5 seconds</option>'' @ nl @
     tabs 8 @ ''<option value="10">Refresh every 10 seconds</option>'' @ nl @
     tabs 8 @ ''<option value="20">Refresh every 20 seconds</option>'' @ nl @
     tabs 8 @ ''<option value="30">Refresh every 30 seconds</option>'' @ nl @
     tabs 7 @ ''</select>'' @ nl @
     tabs 6 @ ''</div>'' @ nl @
     tabs 6 @ ''<div>'' @ nl @
     tabs 7 @ ''<input type="checkbox" id="hidecategoriescheck" onchange="changeConfig()" /> Do not show empty categories'' @ nl @
     tabs 6 @ ''</div>'' @ nl @
     tabs 6 @ ''<div>'' @ nl @
     tabs 7 @ ''<input type="checkbox" id="infocheck" checked onchange="changeConfig()" />Show INFO logs'' @ nl @
     tabs 6 @ ''</div>'' @ nl @
     tabs 6 @ ''<div>'' @ nl @
     tabs 7 @ ''<input type="checkbox" id="debugcheck" checked onchange="changeConfig()" />Show DEBUG logs'' @ nl @
     tabs 6 @ ''</div>'' @ nl @
     tabs 6 @ ''<div>'' @ nl @
     tabs 7 @ ''<input type="checkbox" id="warningcheck" checked onchange="changeConfig()" />Show WARNING logs'' @ nl @
     tabs 6 @ ''</div>'' @ nl @
     tabs 6 @ ''<div>'' @ nl @
     tabs 7 @ ''<input type="checkbox" id="errorcheck" checked onchange="changeConfig()" />Show ERROR logs'' @ nl @
     tabs 6 @ ''</div>'' @ nl @
     tabs 5 @ ''</div>'' @ nl @
     tabs 5 @ ''<h2>Sections of this report</h2>'' @ nl @
     tabs 5 @ ''<ul>'' @ nl @
     tabs 6\<close>

definition li_open :: string where
  \<open>li_open =
     nl @
     tabs 9 @ ''<li><a href="#''\<close>

definition li_mid :: string where
  \<open>li_mid =
     ''">''\<close>

definition li_close :: string where
  \<open>li_close =
     ''</a></li>'' @ nl @
     tabs 8\<close>

definition ul_close :: string where
  \<open>ul_close =
     nl @
     tabs 5 @ ''</ul>'' @ nl @
     tabs 5\<close>

definition sec_open :: string where
  \<open>sec_open =
     nl @
     tabs 8 @ ''<div class="section">'' @ nl @
     tabs 9 @ ''<h2 id="''\<close>

definition sec_mid :: string where
  \<open>sec_mid =
     ''" style="display: inline-block;">''\<close>

definition sec_started :: string where
  \<open>sec_started =
     ''</h2>'' @ nl @
     tabs 9 @ ''<p style="display: inline-block; padding-left: 20px;">(<a href="#summary">Return to summary</a>)</p>'' @ nl @
     tabs 9 @ ''<p>Started at: ''\<close>

definition sec_finished :: string where
  \<open>sec_finished =
     ''</p>'' @ nl @
     tabs 9 @ ''<p>Finished at: ''\<close>

definition sec_logs_open :: string where
  \<open>sec_logs_open =
     ''</p>'' @ nl @
     tabs 9\<close>

definition log_open :: string where
  \<open>log_open =
     nl @
     tabs 11 @ ''<div class="''\<close>

definition log_mid :: string where
  \<open>log_mid =
     '' islog">''\<close>

definition log_date_open :: string where
  \<open>log_date_open =
     '' (''\<close>

definition log_date_close :: string where
  \<open>log_date_close =
     ''): ''\<close>

definition log_close :: string where
  \<open>log_close =
     ''</div>'' @ nl @
     tabs 11\<close>

definition sec_close :: string where
  \<open>sec_close =
     nl @
     tabs 8 @ ''</div>'' @ nl @
     tabs 7\<close>

definition doc_close :: string where
  \<open>doc_close =
     nl @
     tabs 4 @ ''</body>'' @ nl @
     tabs 3 @ ''</html>'' @ nl @
     tabs 3\<close>

text \<open>The first inline function of the template (lines 293-302): the table of contents.\<close>

definition tocItem :: "sectionRec \<Rightarrow> string" where
  "tocItem section = li_open @ key section @ li_mid @ name section @ li_close"

definition toc :: "'f log \<Rightarrow> string" where
  "toc w = foldl (\<lambda>sectionsStr (i, section). sectionsStr @ tocItem section) [] (for_in w)"

text \<open>
  The innermost function (lines 314-323): the entries of one section.
  \<^verbatim>\<open>for (var j in section.logs)\<close> visits the indices of the array in ascending order,
  and then, when \<^verbatim>\<open>Object.prototype\<close> has the property \<^verbatim>\<open>end\<close>, that inherited name too:
  \<^verbatim>\<open>section.logs["end"]\<close> is a \<^verbatim>\<open>Date\<close>, whose \<^verbatim>\<open>type\<close>, \<^verbatim>\<open>dateTime\<close> and \<^verbatim>\<open>value\<close> are
  \<^verbatim>\<open>undefined\<close>.
\<close>

definition logLine :: "entry \<Rightarrow> string" where
  "logLine log =
     log_open @ etype log @ log_mid @ etype log @ log_date_open @ dateTime log @
     log_date_close @ evalue log @ log_close"

definition undefinedLine :: string where
  "undefinedLine =
     log_open @ ''undefined'' @ log_mid @ ''undefined'' @ log_date_open @ ''undefined'' @
     log_date_close @ ''undefined'' @ log_close"

definition logsOf :: "'f log \<Rightarrow> sectionRec \<Rightarrow> string" where
  "logsOf w section =
     foldl (\<lambda>logsStr log. logsStr @ logLine log) [] (logs section) @
     (if objproto_end w then undefinedLine else [])"

text \<open>
  The second inline function (lines 304-328): one block per section, its heading (up to
  the place of the entries) first.
\<close>

definition sectionHead :: "sectionRec \<Rightarrow> string" where
  "sectionHead section =
     sec_open @ key section @ sec_mid @ name section @ sec_started @
     dateToString (sec_start section) ''dd/mm/yyyy H:i:s'' @ sec_finished @
     dateToString (sec_end section) ''dd/mm/yyyy H:i:s'' @ sec_logs_open"

definition sectionBlock :: "'f log \<Rightarrow> sectionRec \<Rightarrow> string" where
  "sectionBlock w section = sectionHead section @ logsOf w section @ sec_close"

definition body :: "'f log \<Rightarrow> string" where
  "body w =
     foldl (\<lambda>sectionsStr (i, section). sectionsStr @ sectionBlock w section) [] (for_in w)"

text \<open>
  The whole template: the part before the section blocks (\<open>e\<close> is \<^verbatim>\<open>this.end\<close>), the
  blocks, and the closing tags.
\<close>

definition docHead :: "'f log \<Rightarrow> jsdate \<Rightarrow> string" where
  "docHead w e =
     doc_open @ title w @ title_sep @ dateToString (log_start w) ''dd/mm/yyyy H:i:s'' @
     doc_style_script @ title w @ h1_close @ description w @ summary_open @
     dateToString (log_start w) ''dd/mm/yyyy H:i:s'' @ finished_open @
     dateToString e ''dd/mm/yyyy H:i:s'' @ controls @ toc w @ ul_close"

definition document :: "'f log \<Rightarrow> jsdate \<Rightarrow> string" where
  "document w e = docHead w e @ body w @ doc_close"

text \<open>
  \<^verbatim>\<open>_render()\<close>, lines 182-334. It raises a \<^verbatim>\<open>TypeError\<close> in two cases:
  \<^verbatim>\<open>this.end\<close> is still \<^verbatim>\<open>null\<close> (\<^verbatim>\<open>_dateToString\<close> calls \<^verbatim>\<open>getDate\<close> on it), or the loop
  over \<^verbatim>\<open>this.sections\<close> reaches an inherited name: the value found there is not a
  section, its \<^verbatim>\<open>start\<close> is \<^verbatim>\<open>undefined\<close>, and \<^verbatim>\<open>_dateToString\<close> calls \<^verbatim>\<open>getDate\<close> on that.
\<close>

definition render :: "'f log \<Rightarrow> exn + string" where
  "render w =
     (case log_end w of
        None \<Rightarrow> Inl TypeError
      | Some e \<Rightarrow> if inherited w \<noteq> [] then Inl TypeError else Inr (document w e))"

subsection \<open>Saving\<close>

text \<open>One of the three blocks \<^verbatim>\<open>if (!existsSync(p)) mkdirSync(p)\<close> of lines 164-172.\<close>

definition ensureDir :: "'f fsapi \<Rightarrow> string \<Rightarrow> 'f \<Rightarrow> 'f option" where
  "ensureDir api p d = (if \<not> existsSync api d p then mkdirSync api d p else Some d)"

text \<open>\<^verbatim>\<open>_prepareSave()\<close>, lines 152-176: the path of the file, or the exception raised.\<close>

definition prepareSave :: "'f log \<Rightarrow> (exn + string) \<times> 'f log" where
  "prepareSave w0 =
     (let w = (tick w0)\<lparr>log_end := Some (now w0)\<rparr>;
          day = dateToString (log_start w) ''dd'';
          month = dateToString (log_start w) ''mm'';
          year = dateToString (log_start w) ''yyyy'';
          fileName = title w @ ''_'' @ dateToString (log_start w) ''yyyymmdd_His'';
          base = logsPath w
      in case ensureDir (fs w) (base @ ''/'' @ year) (disk w) of
           None \<Rightarrow> (Inl FsError, w)
         | Some d1 \<Rightarrow>
             (case ensureDir (fs w) (base @ ''/'' @ year @ ''/'' @ month) d1 of
                None \<Rightarrow> (Inl FsError, w\<lparr>disk := d1\<rparr>)
              | Some d2 \<Rightarrow>
                  (case ensureDir (fs w) (base @ ''/'' @ year @ ''/'' @ month @ ''/'' @ day) d2 of
                     None \<Rightarrow> (Inl FsError, w\<lparr>disk := d2\<rparr>)
                   | Some d3 \<Rightarrow>
                       (Inr (base @ ''/'' @ year @ ''/'' @ month @ ''/'' @ day @ ''/'' @
                             fileName @ ''.html''),
                        w\<lparr>disk := d3\<rparr>))))"

text \<open>\<^verbatim>\<open>save()\<close>, lines 111-116: the exception raised, if any, and the state left.\<close>

definition save :: "'f log \<Rightarrow> exn option \<times> 'f log" where
  "save w0 =
     (case prepareSave w0 of
        (Inl e, w) \<Rightarrow> (Some e, w)
      | (Inr fullFilePath, w) \<Rightarrow>
          (case render w of
             Inl e \<Rightarrow> (Some e, w)
           | Inr fileContent \<Rightarrow>
               (case writeFileSync (fs w) (disk w) fullFilePath fileContent of
                  None \<Rightarrow> (Some FsError, w)
                | Some d \<Rightarrow> (None, w\<lparr>disk := d\<rparr>))))"

subsection \<open>Sections and entries\<close>

text \<open>
  \<^verbatim>\<open>createSection(name, key)\<close>, lines 32-42. The two \<^verbatim>\<open>new Date()\<close> of the object literal
  are two readings of the clock.
\<close>

definition createSection :: "string \<Rightarrow> string \<Rightarrow> 'f log \<Rightarrow> exn option \<times> 'f log" where
  "createSection nm k w =
     (let section = \<lparr>key = k, name = nm, sec_start = clock w (ticks w),
                     sec_end = clock w (ticks w + 1), elapsed = None, logs = []\<rparr>;
          w = tick (tick w)
      in save (if k = ''__proto__'' then w\<lparr>proto := Some section\<rparr>
               else w\<lparr>sections := AList.update k section (sections w)\<rparr>))"

text \<open>
  \<^verbatim>\<open>closeSection(key)\<close>, lines 48-53. When \<^verbatim>\<open>this.sections[key]\<close> is not a section, reading
  \<^verbatim>\<open>section.start.getTime()\<close> (or already writing \<^verbatim>\<open>section.end\<close>) raises a \<^verbatim>\<open>TypeError\<close>.
  Under the key \<^verbatim>\<open>"__proto__"\<close> of a \<^verbatim>\<open>sections\<close> object whose prototype was never
  replaced, \<^verbatim>\<open>section\<close> is \<^verbatim>\<open>Object.prototype\<close>, and line 50 has given it the property
  \<^verbatim>\<open>end\<close> before line 51 raises. The clock reading of line 50 is counted in every case.
\<close>

definition closeSection :: "string \<Rightarrow> 'f log \<Rightarrow> exn option \<times> 'f log" where
  "closeSection k w0 =
     (let e = now w0; w = tick w0
      in case section_at w k of
           Some section \<Rightarrow>
             save (put_section k
                     (section\<lparr>sec_end := e,
                              elapsed := Some (getTime e - getTime (sec_start section))\<rparr>) w)
         | None \<Rightarrow>
             (Some TypeError, if k = ''__proto__'' then w\<lparr>objproto_end := True\<rparr> else w))"

text \<open>\<^verbatim>\<open>_getLogObject(type, value)\<close>, lines 101-106.\<close>

definition getLogObject :: "string \<Rightarrow> string \<Rightarrow> 'f log \<Rightarrow> entry \<times> 'f log" where
  "getLogObject ty v w =
     (let dateString = dateToString (now w) ''dd/mm/yyyy H:i:s''
      in (\<lparr>etype = ty, evalue = v, dateTime = dateString\<rparr>, tick w))"

text \<open>
  \<^verbatim>\<open>_pushLog(type, sectionKey, value)\<close>, lines 89-93. When \<^verbatim>\<open>this.sections[sectionKey]\<close> is
  not a section, its \<^verbatim>\<open>logs\<close> is \<^verbatim>\<open>undefined\<close> and line 91 raises a \<^verbatim>\<open>TypeError\<close>.
\<close>

definition pushLog :: "string \<Rightarrow> string \<Rightarrow> string \<Rightarrow> 'f log \<Rightarrow> exn option \<times> 'f log" where
  "pushLog ty sectionKey v w0 =
     (case getLogObject ty v w0 of
        (log, w) \<Rightarrow>
          (case section_at w sectionKey of
             Some section \<Rightarrow>
               save (put_section sectionKey (section\<lparr>logs := logs section @ [log]\<rparr>) w)
           | None \<Rightarrow> (Some TypeError, w)))"

definition info :: "string \<Rightarrow> string \<Rightarrow> 'f log \<Rightarrow> exn option \<times> 'f log" where
  "info sectionKey v = pushLog ''INFO'' sectionKey v"

definition error :: "string \<Rightarrow> string \<Rightarrow> 'f log \<Rightarrow> exn option \<times> 'f log" where
  "error sectionKey v = pushLog ''ERROR'' sectionKey v"

definition debug :: "string \<Rightarrow> string \<Rightarrow> 'f log \<Rightarrow> exn option \<times> 'f log" where
  "debug sectionKey v = pushLog ''DEBUG'' sectionKey v"

text \<open>Statements in sequence: an exception ends the method.\<close>

definition andThen ::
  "exn option \<times> 'f log \<Rightarrow> ('f log \<Rightarrow> exn option \<times> 'f log) \<Rightarrow> exn option \<times> 'f log" where
  "andThen r f = (case r of (None, w) \<Rightarrow> f w | (Some e, w) \<Rightarrow> (Some e, w))"

text \<open>
  \<^verbatim>\<open>_logException(type, message)\<close>, lines 139-146. \<^verbatim>\<open>"EXCEPTIONS"\<close> is no name of the
  prototype chain, so \<^verbatim>\<open>this.sections["EXCEPTIONS"] === undefined\<close> says that it is no
  own property.
\<close>

definition logException :: "string \<Rightarrow> string \<Rightarrow> 'f log \<Rightarrow> exn option \<times> 'f log" where
  "logException ty message w =
     andThen
       (if map_of (sections w) ''EXCEPTIONS'' = None
        then createSection ''Unhandled exceptions'' ''EXCEPTIONS'' w else (None, w))
       (\<lambda>w. andThen (pushLog ty ''EXCEPTIONS'' message w) (closeSection ''EXCEPTIONS''))"

definition errorException :: "string \<Rightarrow> 'f log \<Rightarrow> exn option \<times> 'f log" where
  "errorException exceptionMessage = logException ''ERROR'' exceptionMessage"

definition debugException :: "string \<Rightarrow> 'f log \<Rightarrow> exn option \<times> 'f log" where
  "debugException exceptionMessage = logException ''DEBUG'' exceptionMessage"

subsection \<open>Sequences of calls\<close>

text \<open>
  The public methods, and a caller that makes one call after the other: an exception
  that a call raises ends the run.
\<close>

datatype call =
  CreateSection string string
| CloseSection string
| Info string string
| Error string string
| Debug string string
| ErrorException string
| DebugException string
| Save

fun exec :: "call \<Rightarrow> 'f log \<Rightarrow> exn option \<times> 'f log" where
  "exec (CreateSection nm k) w = createSection nm k w"
| "exec (CloseSection k) w = closeSection k w"
| "exec (Info k v) w = info k v w"
| "exec (Error k v) w = error k v w"
| "exec (Debug k v) w = debug k v w"
| "exec (ErrorException m) w = errorException m w"
| "exec (DebugException m) w = debugException m w"
| "exec Save w = save w"

fun run :: "call list \<Rightarrow> 'f log \<Rightarrow> exn + 'f log" where
  "run [] w = Inr w"
| "run (c # cs) w = (case exec c w of (None, w') \<Rightarrow> run cs w' | (Some e, w') \<Rightarrow> Inl e)"

subsection \<open>A storage for examples\<close>

text \<open>
  A small storage in memory, to run the logger on: the directories, and the files with
  their contents. A path is taken as it is written; a directory or a file is created
  only inside a directory that exists.
\<close>

type_synonym memdisk = "string list \<times> (string \<times> string) list"

definition dirname :: "string \<Rightarrow> string" where
  "dirname p = rev (drop 1 (dropWhile (\<lambda>c. c \<noteq> CHR ''/'') (rev p)))"

definition memfs :: "memdisk fsapi" where
  "memfs =
     \<lparr>existsSync = (\<lambda>(ds, fl) p. p \<in> set ds \<or> map_of fl p \<noteq> None),
      mkdirSync = (\<lambda>(ds, fl) p.
        if p \<in> set ds \<or> map_of fl p \<noteq> None \<or> dirname p \<notin> set ds then None
        else Some (ds @ [p], fl)),
      writeFileSync = (\<lambda>(ds, fl) p c.
        if p \<in> set ds \<or> dirname p \<notin> set ds then None
        else Some (ds, AList.update p c fl))\<rparr>"

text \<open>A clock for examples: 5 March 2024, 09:07:03, one millisecond later at each reading.\<close>

definition clock0 :: "nat \<Rightarrow> jsdate" where
  "clock0 n =
     \<lparr>getTime = 1709626023000 + int n, getFullYear = 2024, getMonth = 2, getDate = 5,
      getHours = 9, getMinutes = 7, getSeconds = 3\<rparr>"

definition log0 :: "memdisk log" where
  "log0 = newLog ''Import'' ''desc'' ''/tmp/logs'' memfs ([''/tmp/logs''], []) clock0"

subsection \<open>Notions used to state the properties\<close>

text \<open>
  Zero-padding to two digits, as lines 344 and 347 do it; the six tokens of
  \<^verbatim>\<open>_dateToString\<close> with their values, in the order of lines 356-361; and the strings
  in which no letter of a token occurs.
\<close>

definition pad2 :: "int \<Rightarrow> string" where
  "pad2 n = (if n < 10 then ''0'' @ numToString n else numToString n)"

definition tokens :: "jsdate \<Rightarrow> (string \<times> string) list" where
  "tokens d =
     [(''dd'', pad2 (getDate d)), (''mm'', pad2 (getMonth d + 1)),
      (''yyyy'', numToString (getFullYear d)), (''H'', numToString (getHours d)),
      (''i'', numToString (getMinutes d)), (''s'', numToString (getSeconds d))]"

definition plain :: "string \<Rightarrow> bool" where
  "plain s \<longleftrightarrow> list_all (\<lambda>c. c \<notin> set ''dmyHis'') s"

text \<open>The \<open>elapsed\<close> of the section found under a key.\<close>

definition elapsedAt :: "'f log \<Rightarrow> string \<Rightarrow> int option" where
  "elapsedAt w k = (case section_at w k of Some s \<Rightarrow> elapsed s | None \<Rightarrow> None)"

text \<open>
  Two shapes of the path of the file, from the fields \<^verbatim>\<open>logsPath\<close>, \<^verbatim>\<open>title\<close> and
  \<^verbatim>\<open>start\<close> of the logger. \<open>pathOf\<close> has the hour, the minute and the second as plain
  numerals; \<open>paddedPath\<close> follows the words of the specification,
  \<^verbatim>\<open>logsPath/YYYY/MM/DD/<title>_<YYYYMMDD_HHmmss>.html\<close>, with two digits for each of them.
\<close>

definition pathOf :: "'f log \<Rightarrow> string" where
  "pathOf w =
     (let s = log_start w;
          year = numToString (getFullYear s);
          month = pad2 (getMonth s + 1);
          day = pad2 (getDate s)
      in logsPath w @ ''/'' @ year @ ''/'' @ month @ ''/'' @ day @ ''/'' @ title w @ ''_'' @
         year @ month @ day @ ''_'' @ numToString (getHours s) @ numToString (getMinutes s) @
         numToString (getSeconds s) @ ''.html'')"

definition paddedPath :: "'f log \<Rightarrow> string" where
  "paddedPath w =
     (let s = log_start w;
          year = numToString (getFullYear s);
          month = pad2 (getMonth s + 1);
          day = pad2 (getDate s)
      in logsPath w @ ''/'' @ year @ ''/'' @ month @ ''/'' @ day @ ''/'' @ title w @ ''_'' @
         year @ month @ day @ ''_'' @ pad2 (getHours s) @ pad2 (getMinutes s) @
         pad2 (getSeconds s) @ ''.html'')"

text \<open>The example logger after a first section was created.\<close>

definition log1 :: "memdisk log" where
  "log1 = snd (createSection ''Phase 1'' ''P1'' log0)"

text \<open>
  The same logger at two moments: what the constructor fixed (and no method assigns) is
  the same.
\<close>

definition sameInstance :: "'f log \<Rightarrow> 'f log \<Rightarrow> bool" where
  "sameInstance w w' \<longleftrightarrow>
     title w' = title w \<and> description w' = description w \<and> logsPath w' = logsPath w \<and>
     log_start w' = log_start w \<and> fs w' = fs w \<and> clock w' = clock w"

text \<open>More example loggers: after an entry in the first section, and after two exceptions.\<close>

definition log2 :: "memdisk log" where
  "log2 = snd (info ''P1'' ''<b>started</b>'' log1)"

definition logE1 :: "memdisk log" where
  "logE1 = snd (logException ''ERROR'' ''boom'' log0)"

definition logE2 :: "memdisk log" where
  "logE2 = snd (logException ''DEBUG'' ''again'' logE1)"

text \<open>Two sections created in the order \<open>b\<close>, \<open>a\<close>, and two created in the order \<open>2\<close>, \<open>1\<close>.\<close>

definition logBA :: "memdisk log" where
  "logBA = snd (createSection ''Second'' ''a'' (snd (createSection ''First'' ''b'' log0)))"

definition log21 :: "memdisk log" where
  "log21 = snd (createSection ''Second'' ''1'' (snd (createSection ''First'' ''2'' log0)))"

text \<open>
  The replacement in the words of the specification: the first place at which a pattern
  stands in a string, that is the least index at which the string goes on with the
  pattern, and the string with the pattern cut out at that place and the replacement put
  there; a string in which the pattern does not stand stays as it is.
\<close>

definition firstIndex :: "string \<Rightarrow> string \<Rightarrow> nat option" where
  "firstIndex pat s = find (\<lambda>i. prefix pat (drop i s)) [0..<Suc (length s)]"

definition replaceFirst :: "string \<Rightarrow> string \<Rightarrow> string \<Rightarrow> string" where
  "replaceFirst pat rep s =
     (case firstIndex pat s of
        None \<Rightarrow> s
      | Some i \<Rightarrow> take i s @ rep @ drop (i + length pat) s)"

text \<open>
  A caller that makes one call after the other and catches the exception of each: the
  state of the logger after the last call.
\<close>

fun runAll :: "call list \<Rightarrow> 'f log \<Rightarrow> 'f log" where
  "runAll [] w = w"
| "runAll (c # cs) w = runAll cs (snd (exec c w))"

text \<open>The section key a call names, if any.\<close>

fun keyOf :: "call \<Rightarrow> string option" where
  "keyOf (CreateSection nm k) = Some k"
| "keyOf (CloseSection k) = Some k"
| "keyOf (Info k v) = Some k"
| "keyOf (Error k v) = Some k"
| "keyOf (Debug k v) = Some k"
| "keyOf (ErrorException m) = None"
| "keyOf (DebugException m) = None"
| "keyOf Save = None"

text \<open>The calls other than the two helpers for exceptions, and those that always save.\<close>

fun basic :: "call \<Rightarrow> bool" where
  "basic (ErrorException m) = False"
| "basic (DebugException m) = False"
| "basic c = True"

fun saving :: "call \<Rightarrow> bool" where
  "saving (CreateSection nm k) = True"
| "saving Save = True"
| "saving c = False"

text \<open>
  The journal of a sequence of calls, in the words of the specification: the keys in the
  order in which they were first created, each with the entries recorded under it since
  it was last created, in the order of the calls. An entry call records
  \<^verbatim>\<open>{type, value, dateTime}\<close> under a key that was created, and nothing otherwise; its
  \<^verbatim>\<open>dateTime\<close> is the reading of the clock the call starts with. The number counts the
  readings of the clock: one by the constructor, three by \<^verbatim>\<open>createSection\<close>, one by
  \<^verbatim>\<open>save\<close>, and by \<^verbatim>\<open>closeSection\<close> and an entry call two under a key that was created and
  one otherwise. The two helpers for exceptions are no calls of this journal.
\<close>

type_synonym journal = "(string \<times> entry list) list"

definition noteEntry ::
  "(nat \<Rightarrow> jsdate) \<Rightarrow> string \<Rightarrow> string \<Rightarrow> string \<Rightarrow> nat \<times> journal \<Rightarrow>
   nat \<times> journal" where
  "noteEntry clk ty k v nj =
     (case nj of (n, j) \<Rightarrow>
        (case map_of j k of
           None \<Rightarrow> (n + 1, j)
         | Some es \<Rightarrow>
             (n + 2,
              AList.update k
                (es @ [\<lparr>etype = ty, evalue = v,
                        dateTime = dateToString (clk n) ''dd/mm/yyyy H:i:s''\<rparr>]) j)))"

fun noted :: "(nat \<Rightarrow> jsdate) \<Rightarrow> nat \<times> journal \<Rightarrow> call \<Rightarrow> nat \<times> journal" where
  "noted clk (n, j) (CreateSection nm k) = (n + 3, AList.update k [] j)"
| "noted clk (n, j) (CloseSection k) = (if map_of j k = None then n + 1 else n + 2, j)"
| "noted clk (n, j) (Info k v) = noteEntry clk ''INFO'' k v (n, j)"
| "noted clk (n, j) (Error k v) = noteEntry clk ''ERROR'' k v (n, j)"
| "noted clk (n, j) (Debug k v) = noteEntry clk ''DEBUG'' k v (n, j)"
| "noted clk (n, j) Save = (n + 1, j)"
| "noted clk (n, j) (ErrorException m) = (n, j)"
| "noted clk (n, j) (DebugException m) = (n, j)"

definition recorded :: "(nat \<Rightarrow> jsdate) \<Rightarrow> call list \<Rightarrow> journal" where
  "recorded clk cs = snd (foldl (noted clk) (1, []) cs)"

definition entriesOf :: "journal \<Rightarrow> string \<Rightarrow> entry list" where
  "entriesOf j k = (case map_of j k of Some es \<Rightarrow> es | None \<Rightarrow> [])"

text \<open>A state of the logger and a journal that say the same.\<close>

definition agrees :: "'f log \<Rightarrow> (nat \<Rightarrow> jsdate) \<Rightarrow> nat \<times> journal \<Rightarrow> bool" where
  "agrees w clk nj \<longleftrightarrow>
     ticks w = fst nj \<and> clock w = clk \<and> proto w = None \<and> \<not> objproto_end w \<and>
     map (\<lambda>(k, s). (k, logs s)) (sections w) = snd nj \<and>
     list_all (\<lambda>(k, s). key s = k) (sections w)"

text \<open>The example logger with the directories of its file on the storage, or none yet.\<close>

definition stored :: "memdisk log \<Rightarrow> bool" where
  "stored w \<longleftrightarrow>
     fs w = memfs \<and> logsPath w = ''/tmp/logs'' \<and> title w = ''Import'' \<and>
     description w = ''desc'' \<and> log_start w = clock0 0 \<and> clock w = clock0 \<and>
     (disk w = ([''/tmp/logs''], []) \<or>
      fst (disk w) =
        [''/tmp/logs'', ''/tmp/logs/2024'', ''/tmp/logs/2024/03'', ''/tmp/logs/2024/03/05''])"

text \<open>
  A sequence of calls none of which can raise on the example logger: each names a
  section that is there, and finds no inherited name in \<^verbatim>\<open>this.sections\<close> when it saves.
\<close>

fun passes :: "call list \<Rightarrow> 'f log \<Rightarrow> bool" where
  "passes [] w = True"
| "passes (c # cs) w \<longleftrightarrow>
     basic c \<and>
     (case keyOf c of Some k \<Rightarrow> saving c \<or> section_at w k \<noteq> None | None \<Rightarrow> True) \<and>
     inherited (snd (exec c w)) = [] \<and> passes cs (snd (exec c w))"

text \<open>The scenario of the specification: a section, two entries, the section closed.\<close>

definition importRun :: "call list" where
  "importRun =
     [CreateSection ''Phase 1'' ''P1'', Info ''P1'' ''started'', Error ''P1'' ''bad row 4'',
      CloseSection ''P1'']"

text \<open>
  Three sequences of calls on the example logger: a key created again after an entry;
  a \<^verbatim>\<open>closeSection("__proto__")\<close> whose exception the caller catches, before a section
  with the key \<^verbatim>\<open>end\<close>; and an entry under the key \<^verbatim>\<open>"__proto__"\<close>, after sections with
  the keys \<^verbatim>\<open>key\<close>, \<^verbatim>\<open>name\<close>, \<^verbatim>\<open>start\<close>, \<^verbatim>\<open>end\<close>, \<^verbatim>\<open>elapsed\<close> and \<^verbatim>\<open>logs\<close>.
\<close>

definition recreated :: "call list" where
  "recreated =
     [CreateSection ''Phase 1'' ''P1'', Info ''P1'' ''~lost~'', CreateSection ''Phase 1'' ''P1'']"

definition polluted :: "call list" where
  "polluted =
     [CreateSection ''Phase 1'' ''P1'', CloseSection ''__proto__'', CreateSection ''End'' ''end'',
      Info ''end'' ''x'']"

definition shadowed :: "call list" where
  "shadowed =
     [CreateSection ''K'' ''key'', CreateSection ''N'' ''name'', CreateSection ''S'' ''start'',
      CreateSection ''E'' ''end'', CreateSection ''L'' ''elapsed'', CreateSection ''G'' ''logs'',
      CreateSection ''X'' ''__proto__'', Info ''__proto__'' ''~hidden~'']"

section \<open>Properties\<close>

subsection \<open>Numerals and replacement\<close>

lemma digit_in: "n < 10 \<Longrightarrow> digit n \<in> set ''0123456789''"
  unfolding digit_def by (rule nth_mem) simp

lemma digits_chars: "set (digits n) \<subseteq> set ''0123456789''"
proof (induction n rule: digits.induct)
  case (1 n)
  show ?case
  proof (cases "n < 10")
    case True
    then have "nat n < 10" by simp
    then have "digit (nat n) \<in> set ''0123456789''" by (rule digit_in)
    with True show ?thesis by (simp add: digits.simps [of n])
  next
    case False
    have "nat (n mod 10) < 10" by simp
    then have "digit (nat (n mod 10)) \<in> set ''0123456789''" by (rule digit_in)
    with False "1.IH" show ?thesis by (simp add: digits.simps [of n])
  qed
qed

lemma numToString_chars: "set (numToString i) \<subseteq> set ''-0123456789''"
proof -
  have sub: "set ''0123456789'' \<subseteq> set ''-0123456789''" by (simp add: subset_insertI2)
  show ?thesis
  proof (cases "i < 0")
    case True
    then have "set (numToString i) = insert CHR ''-'' (set (digits (- i)))"
      by (simp add: numToString_def)
    with digits_chars [of "- i"] sub show ?thesis by (simp add: subset_insertI2 subset_trans)
  next
    case False
    then have "numToString i = digits i" by (simp add: numToString_def)
    with digits_chars [of i] sub show ?thesis by (simp only: subset_trans)
  qed
qed

lemma numToString_plain: "plain (numToString i)"
proof -
  have "\<forall>c \<in> set ''-0123456789''. c \<notin> set ''dmyHis''" by simp
  with numToString_chars [of i] show ?thesis
    unfolding plain_def list_all_iff by blast
qed

lemma pad2_plain: "plain (pad2 n)"
  using numToString_plain [of n] by (simp add: pad2_def plain_def)

lemma plain_append [simp]: "plain (a @ b) \<longleftrightarrow> plain a \<and> plain b"
  by (simp add: plain_def)

lemma plainD: "plain s \<Longrightarrow> c \<in> set ''dmyHis'' \<Longrightarrow> c \<notin> set s"
  unfolding plain_def list_all_iff by blast

lemma not_prefix_hd: "pat \<noteq> [] \<Longrightarrow> hd pat \<noteq> c \<Longrightarrow> \<not> prefix pat (c # cs)"
  by (cases pat) simp_all

lemma replace_skip:
  assumes "pat \<noteq> []" and "hd pat \<notin> set pre"
  shows "replace pat rep (pre @ s) = pre @ replace pat rep s"
  using assms
proof (induction pre)
  case Nil
  then show ?case by simp
next
  case (Cons c cs)
  from Cons.prems have "\<not> prefix pat (c # cs @ s)"
    by (intro not_prefix_hd) auto
  with Cons show ?case by simp
qed

lemma replace_here: "replace pat rep (pat @ s) = rep @ s"
  by (cases pat; cases s) simp_all

lemma replace_absent:
  assumes "pat \<noteq> []" and "hd pat \<notin> set s"
  shows "replace pat rep s = s"
  using replace_skip [OF assms, of rep "[]"] assms(1) by simp

lemma replace_plain:
  assumes "plain s" and "pat \<noteq> []" and "hd pat \<in> set ''dmyHis''"
  shows "replace pat rep s = s"
  using assms plainD [of s "hd pat"] by (intro replace_absent) auto

lemma replace_plain_skip:
  assumes "plain pre" and "pat \<noteq> []" and "hd pat \<in> set ''dmyHis''"
  shows "replace pat rep (pre @ s) = pre @ replace pat rep s"
  using assms plainD [of pre "hd pat"] by (intro replace_skip) auto

lemma dateToString_tokens:
  "dateToString d t = foldl (\<lambda>t (tok, v). replace tok v t) t (tokens d)"
  by (simp add: dateToString_def tokens_def pad2_def Let_def)

lemma dateToString_single:
  "dateToString d ''dd'' = pad2 (getDate d)"
  "dateToString d ''mm'' = pad2 (getMonth d + 1)"
  "dateToString d ''yyyy'' = numToString (getFullYear d)"
  "dateToString d ''H'' = numToString (getHours d)"
  "dateToString d ''i'' = numToString (getMinutes d)"
  "dateToString d ''s'' = numToString (getSeconds d)"
  by (simp_all add: dateToString_tokens tokens_def replace_plain pad2_plain numToString_plain)

lemma dateToString_fileName:
  "dateToString d ''yyyymmdd_His'' =
     numToString (getFullYear d) @ pad2 (getMonth d + 1) @ pad2 (getDate d) @ ''_'' @
     numToString (getHours d) @ numToString (getMinutes d) @ numToString (getSeconds d)"
  by (simp add: dateToString_tokens tokens_def replace_plain replace_plain_skip pad2_plain
      numToString_plain)

lemma dateToString_stamp:
  "dateToString d ''dd/mm/yyyy H:i:s'' =
     pad2 (getDate d) @ ''/'' @ pad2 (getMonth d + 1) @ ''/'' @ numToString (getFullYear d) @
     '' '' @ numToString (getHours d) @ '':'' @ numToString (getMinutes d) @ '':'' @
     numToString (getSeconds d)"
  by (simp add: dateToString_tokens tokens_def replace_plain replace_plain_skip pad2_plain
      numToString_plain)

lemma length_digits_1: "n < 10 \<Longrightarrow> length (digits n) = 1"
  by (simp add: digits.simps [of n])

lemma length_digits_2: "10 \<le> n \<Longrightarrow> n < 100 \<Longrightarrow> length (digits n) = 2"
  by (simp add: digits.simps [of n] length_digits_1)

lemma length_pad2: "0 \<le> n \<Longrightarrow> n < 100 \<Longrightarrow> length (pad2 n) = 2"
  by (simp add: pad2_def numToString_def length_digits_1 length_digits_2)

lemma dateToString_twice:
  assumes "plain pre" and "plain mid" and "plain post"
  shows "dateToString d (pre @ ''dd'' @ mid @ ''dd'' @ post) =
           pre @ pad2 (getDate d) @ mid @ ''dd'' @ post"
    and "dateToString d (pre @ ''mm'' @ mid @ ''mm'' @ post) =
           pre @ pad2 (getMonth d + 1) @ mid @ ''mm'' @ post"
    and "dateToString d (pre @ ''yyyy'' @ mid @ ''yyyy'' @ post) =
           pre @ numToString (getFullYear d) @ mid @ ''yyyy'' @ post"
    and "dateToString d (pre @ ''H'' @ mid @ ''H'' @ post) =
           pre @ numToString (getHours d) @ mid @ ''H'' @ post"
    and "dateToString d (pre @ ''i'' @ mid @ ''i'' @ post) =
           pre @ numToString (getMinutes d) @ mid @ ''i'' @ post"
    and "dateToString d (pre @ ''s'' @ mid @ ''s'' @ post) =
           pre @ numToString (getSeconds d) @ mid @ ''s'' @ post"
  using assms
  by (simp_all add: dateToString_tokens tokens_def replace_plain replace_plain_skip pad2_plain
      numToString_plain)

subsection \<open>What a save changes\<close>

lemma prepareSave_state:
  "snd (prepareSave w) =
     w\<lparr>ticks := ticks w + 1, log_end := Some (now w), disk := disk (snd (prepareSave w))\<rparr>"
  by (simp add: prepareSave_def Let_def tick_def split: option.splits)

lemma save_state:
  "snd (save w) =
     w\<lparr>ticks := ticks w + 1, log_end := Some (now w), disk := disk (snd (save w))\<rparr>"
proof -
  obtain r w1 where p: "prepareSave w = (r, w1)" by (cases "prepareSave w")
  with prepareSave_state [of w]
  have w1: "w1 = w\<lparr>ticks := ticks w + 1, log_end := Some (now w), disk := disk w1\<rparr>"
    by simp
  have "snd (save w) = w1\<lparr>disk := disk (snd (save w))\<rparr>"
    using p by (simp add: save_def split: sum.splits option.splits)
  also have "\<dots> = w\<lparr>ticks := ticks w + 1, log_end := Some (now w),
      disk := disk (snd (save w))\<rparr>"
    using arg_cong [OF w1, of "\<lambda>r. r\<lparr>disk := disk (snd (save w))\<rparr>"] by simp
  finally show ?thesis .
qed

lemma save_fields [simp]:
  "title (snd (save w)) = title w"
  "description (snd (save w)) = description w"
  "logsPath (snd (save w)) = logsPath w"
  "log_start (snd (save w)) = log_start w"
  "log_end (snd (save w)) = Some (now w)"
  "sections (snd (save w)) = sections w"
  "proto (snd (save w)) = proto w"
  "fs (snd (save w)) = fs w"
  "objproto_end (snd (save w)) = objproto_end w"
  "clock (snd (save w)) = clock w"
  "ticks (snd (save w)) = ticks w + 1"
  using arg_cong [OF save_state, of title w] arg_cong [OF save_state, of description w]
    arg_cong [OF save_state, of logsPath w] arg_cong [OF save_state, of log_start w]
    arg_cong [OF save_state, of log_end w] arg_cong [OF save_state, of sections w]
    arg_cong [OF save_state, of proto w] arg_cong [OF save_state, of fs w]
    arg_cong [OF save_state, of objproto_end w] arg_cong [OF save_state, of clock w]
    arg_cong [OF save_state, of ticks w]
  by simp_all

lemma section_at_save [simp]: "section_at (snd (save w)) k = section_at w k"
  by (simp add: section_at_def cong: option.case_cong)

lemma section_at_tick [simp]: "section_at (tick w) k = section_at w k"
  by (simp add: section_at_def tick_def cong: option.case_cong)

lemma section_at_put:
  "section_at w k = Some s \<Longrightarrow> section_at (put_section k s' w) k = Some s'"
  by (auto simp: section_at_def put_section_def update_conv' split: option.splits if_splits)

lemma prepareSave_fields [simp]:
  "log_end (snd (prepareSave w)) = Some (now w)"
  "sections (snd (prepareSave w)) = sections w"
  "proto (snd (prepareSave w)) = proto w"
  "objproto_end (snd (prepareSave w)) = objproto_end w"
  using arg_cong [OF prepareSave_state, of log_end w]
    arg_cong [OF prepareSave_state, of sections w]
    arg_cong [OF prepareSave_state, of proto w]
    arg_cong [OF prepareSave_state, of objproto_end w]
  by simp_all

lemma inherited_prepareSave [simp]: "inherited (snd (prepareSave w)) = inherited w"
  by (simp add: inherited_def)

lemma save_ok_render:
  assumes "fst (save w) = None"
  shows "inherited w = []"
proof -
  obtain r w1 where p: "prepareSave w = (r, w1)" by (cases "prepareSave w")
  then have w1: "w1 = snd (prepareSave w)" by simp
  from assms p obtain html where "render w1 = Inr html"
    by (auto simp: save_def split: sum.splits option.splits)
  then have "inherited w1 = []"
    by (auto simp: render_def split: option.splits if_splits)
  then show ?thesis by (simp add: w1)
qed

lemma save_no_TypeError:
  assumes "proto w = None" and "\<not> objproto_end w"
  shows "fst (save w) \<noteq> Some TypeError"
proof -
  obtain r w1 where p: "prepareSave w = (r, w1)" by (cases "prepareSave w")
  then have w1: "w1 = snd (prepareSave w)" by simp
  have r: "r \<noteq> Inl TypeError"
    using p by (auto simp: prepareSave_def Let_def split: option.splits)
  from assms have "inherited w1 = []" by (simp add: w1 inherited_def)
  moreover have "log_end w1 = Some (now w)" by (simp add: w1)
  ultimately have "render w1 = Inr (document w1 (now w))" by (simp add: render_def)
  with p r show ?thesis
    by (cases r) (auto simp: save_def split: option.splits)
qed

lemma pushLog_missing:
  assumes "section_at w k = None"
  shows "pushLog ty k v w = (Some TypeError, w\<lparr>ticks := ticks w + 1\<rparr>)"
proof -
  from assms have "section_at (tick w) k = None" by simp
  then show ?thesis by (simp add: pushLog_def getLogObject_def Let_def tick_def)
qed

text \<open>The equations that evaluate the logger on the example storage and clock.\<close>

lemmas eval_defs = createSection_def save_def prepareSave_def render_def inherited_def memfs_def
  log0_def newLog_def ensureDir_def dirname_def clock0_def tick_def now_def
  dateToString_single dateToString_fileName pad2_def numToString_def digits.simps digit_def
  Let_def

subsection \<open>What the methods keep and change\<close>

lemma sameInstance_refl [simp]: "sameInstance w w"
  by (simp add: sameInstance_def)

lemma sameInstance_trans: "sameInstance a b \<Longrightarrow> sameInstance b c \<Longrightarrow> sameInstance a c"
  by (simp add: sameInstance_def)

lemma sameInstance_save: "sameInstance w (snd (save w))"
  by (simp add: sameInstance_def)

lemma sameInstance_save': "sameInstance w w1 \<Longrightarrow> sameInstance w (snd (save w1))"
  by (simp add: sameInstance_def)

lemma sameInstance_createSection: "sameInstance w (snd (createSection nm k w))"
  by (simp add: createSection_def Let_def tick_def sameInstance_def)

lemma sameInstance_closeSection: "sameInstance w (snd (closeSection k w))"
  by (simp add: closeSection_def Let_def tick_def put_section_def sameInstance_def
      split: option.splits)

lemma sameInstance_pushLog: "sameInstance w (snd (pushLog ty k v w))"
  by (simp add: pushLog_def getLogObject_def Let_def tick_def put_section_def sameInstance_def
      split: option.splits)

lemma sameInstance_andThen:
  assumes "sameInstance w (snd r)" and "\<And>w1. sameInstance w1 (snd (f w1))"
  shows "sameInstance w (snd (andThen r f))"
proof (cases r)
  case (Pair e w1)
  show ?thesis
  proof (cases e)
    case None
    with Pair assms(1) assms(2) [of w1] show ?thesis
      by (auto simp: andThen_def intro: sameInstance_trans)
  next
    case (Some x)
    with Pair assms(1) show ?thesis by (simp add: andThen_def)
  qed
qed

lemma sameInstance_logException: "sameInstance w (snd (logException ty m w))"
  unfolding logException_def
  by (intro sameInstance_andThen sameInstance_pushLog sameInstance_closeSection)
    (simp add: sameInstance_createSection)

lemma sameInstance_exec: "sameInstance w (snd (exec c w))"
  by (cases c)
    (simp_all add: sameInstance_createSection sameInstance_closeSection sameInstance_pushLog
      sameInstance_logException sameInstance_save info_def error_def debug_def
      errorException_def debugException_def)

lemma sameInstance_run: "run cs w = Inr w' \<Longrightarrow> sameInstance w w'"
proof (induction cs arbitrary: w)
  case Nil
  then show ?case by simp
next
  case (Cons c cs)
  obtain e w1 where ex: "exec c w = (e, w1)" by (cases "exec c w")
  with Cons.prems have "e = None" and "run cs w1 = Inr w'"
    by (cases e; simp)+
  with Cons.IH [of w1] sameInstance_exec [of w c] ex show ?case
    by (auto intro: sameInstance_trans)
qed

lemma prepareSave_path:
  assumes "prepareSave w = (Inr p, w')"
  shows "p = pathOf w"
  using assms
  by (simp add: prepareSave_def pathOf_def Let_def tick_def dateToString_single
      dateToString_fileName split: option.splits)

lemma andThen_ok:
  assumes "andThen r f = (None, w')"
  obtains w1 where "r = (None, w1)" and "f w1 = (None, w')"
  using assms by (cases r; cases "fst r") (auto simp: andThen_def)

lemma createSection_own:
  assumes "k \<noteq> ''__proto__''"
  shows "createSection nm k w =
     save (w\<lparr>ticks := ticks w + 2,
             sections := AList.update k
               \<lparr>key = k, name = nm, sec_start = clock w (ticks w),
                sec_end = clock w (ticks w + 1), elapsed = None, logs = []\<rparr> (sections w)\<rparr>)"
  using assms by (simp add: createSection_def Let_def tick_def)

lemma pushLog_own:
  assumes "map_of (sections w) k = Some s"
  shows "pushLog ty k v w =
     save (w\<lparr>ticks := ticks w + 1,
             sections := AList.update k
               (s\<lparr>logs := logs s @
                  [\<lparr>etype = ty, evalue = v,
                    dateTime = dateToString (now w) ''dd/mm/yyyy H:i:s''\<rparr>]\<rparr>) (sections w)\<rparr>)"
  using assms
  by (simp add: pushLog_def getLogObject_def Let_def tick_def section_at_def put_section_def)

lemma closeSection_own:
  assumes "map_of (sections w) k = Some s"
  shows "closeSection k w =
     save (w\<lparr>ticks := ticks w + 1,
             sections := AList.update k
               (s\<lparr>sec_end := now w,
                  elapsed := Some (getTime (now w) - getTime (sec_start s))\<rparr>) (sections w)\<rparr>)"
  using assms
  by (simp add: closeSection_def Let_def tick_def section_at_def put_section_def)

lemma pushLog_then_close:
  assumes s: "map_of (sections w) k = Some s"
    and push: "pushLog ty k v w = (None, w2)"
    and close: "closeSection k w2 = (None, w')"
  shows "map_of (sections w') k =
     Some (s\<lparr>logs := logs s @
              [\<lparr>etype = ty, evalue = v,
                dateTime = dateToString (clock w (ticks w)) ''dd/mm/yyyy H:i:s''\<rparr>],
            sec_end := clock w (ticks w + 2),
            elapsed := Some (getTime (clock w (ticks w + 2)) - getTime (sec_start s))\<rparr>)"
    and "ticks w' = ticks w + 4"
proof -
  let ?s2 = "s\<lparr>logs := logs s @
      [\<lparr>etype = ty, evalue = v, dateTime = dateToString (now w) ''dd/mm/yyyy H:i:s''\<rparr>]\<rparr>"
  from push have w2: "w2 = snd (pushLog ty k v w)" by simp
  have s2: "map_of (sections w2) k = Some ?s2"
    and t2: "ticks w2 = ticks w + 2" and c2: "clock w2 = clock w"
    unfolding w2 pushLog_own [OF s] by (simp_all add: update_conv')
  from close have w': "w' = snd (closeSection k w2)" by simp
  have "map_of (sections w') k =
      Some (?s2\<lparr>sec_end := now w2, elapsed := Some (getTime (now w2) - getTime (sec_start ?s2))\<rparr>)"
    and "ticks w' = ticks w2 + 2"
    unfolding w' closeSection_own [OF s2] by (simp_all add: update_conv')
  then show "map_of (sections w') k =
     Some (s\<lparr>logs := logs s @
              [\<lparr>etype = ty, evalue = v,
                dateTime = dateToString (clock w (ticks w)) ''dd/mm/yyyy H:i:s''\<rparr>],
            sec_end := clock w (ticks w + 2),
            elapsed := Some (getTime (clock w (ticks w + 2)) - getTime (sec_start s))\<rparr>)"
    and "ticks w' = ticks w + 4"
    by (simp_all add: now_def t2 c2)
qed

lemma logException_first:
  assumes absent: "map_of (sections w) ''EXCEPTIONS'' = None"
    and ok: "logException ty m w = (None, w')"
  shows "map_of (sections w') ''EXCEPTIONS'' =
        Some \<lparr>key = ''EXCEPTIONS'', name = ''Unhandled exceptions'',
              sec_start = clock w (ticks w), sec_end = clock w (ticks w + 5),
              elapsed = Some (getTime (clock w (ticks w + 5)) - getTime (clock w (ticks w))),
              logs = [\<lparr>etype = ty, evalue = m,
                       dateTime = dateToString (clock w (ticks w + 3)) ''dd/mm/yyyy H:i:s''\<rparr>]\<rparr>"
    and "ticks w' = ticks w + 7"
proof -
  let ?rec = "\<lparr>key = ''EXCEPTIONS'', name = ''Unhandled exceptions'',
      sec_start = clock w (ticks w), sec_end = clock w (ticks w + 1), elapsed = None, logs = []\<rparr>"
  from ok have "andThen (createSection ''Unhandled exceptions'' ''EXCEPTIONS'' w)
      (\<lambda>w. andThen (pushLog ty ''EXCEPTIONS'' m w) (closeSection ''EXCEPTIONS'')) = (None, w')"
    by (simp add: logException_def absent)
  then obtain w1 where c: "createSection ''Unhandled exceptions'' ''EXCEPTIONS'' w = (None, w1)"
    and rest: "andThen (pushLog ty ''EXCEPTIONS'' m w1) (closeSection ''EXCEPTIONS'') = (None, w')"
    by (rule andThen_ok)
  from rest obtain w2 where push: "pushLog ty ''EXCEPTIONS'' m w1 = (None, w2)"
    and close: "closeSection ''EXCEPTIONS'' w2 = (None, w')"
    by (rule andThen_ok)
  from c have w1: "w1 = snd (createSection ''Unhandled exceptions'' ''EXCEPTIONS'' w)" by simp
  have s1: "map_of (sections w1) ''EXCEPTIONS'' = Some ?rec"
    and t1: "ticks w1 = ticks w + 3" and c1: "clock w1 = clock w"
    unfolding w1 by (simp_all add: createSection_own update_conv')
  from pushLog_then_close [OF s1 push close]
  show "map_of (sections w') ''EXCEPTIONS'' =
      Some \<lparr>key = ''EXCEPTIONS'', name = ''Unhandled exceptions'',
            sec_start = clock w (ticks w), sec_end = clock w (ticks w + 5),
            elapsed = Some (getTime (clock w (ticks w + 5)) - getTime (clock w (ticks w))),
            logs = [\<lparr>etype = ty, evalue = m,
                     dateTime = dateToString (clock w (ticks w + 3)) ''dd/mm/yyyy H:i:s''\<rparr>]\<rparr>"
    and "ticks w' = ticks w + 7"
    by (simp_all add: t1 c1 ac_simps)
qed

lemma logException_later:
  assumes s: "map_of (sections w) ''EXCEPTIONS'' = Some s"
    and ok: "logException ty m w = (None, w')"
  shows "map_of (sections w') ''EXCEPTIONS'' =
        Some (s\<lparr>logs := logs s @
                 [\<lparr>etype = ty, evalue = m,
                   dateTime = dateToString (clock w (ticks w)) ''dd/mm/yyyy H:i:s''\<rparr>],
               sec_end := clock w (ticks w + 2),
               elapsed := Some (getTime (clock w (ticks w + 2)) - getTime (sec_start s))\<rparr>)"
    and "ticks w' = ticks w + 4"
proof -
  from ok have "andThen (pushLog ty ''EXCEPTIONS'' m w) (closeSection ''EXCEPTIONS'') = (None, w')"
    by (simp add: logException_def andThen_def s)
  then obtain w2 where push: "pushLog ty ''EXCEPTIONS'' m w = (None, w2)"
    and close: "closeSection ''EXCEPTIONS'' w2 = (None, w')"
    by (rule andThen_ok)
  from pushLog_then_close [OF s push close]
  show "map_of (sections w') ''EXCEPTIONS'' =
        Some (s\<lparr>logs := logs s @
                 [\<lparr>etype = ty, evalue = m,
                   dateTime = dateToString (clock w (ticks w)) ''dd/mm/yyyy H:i:s''\<rparr>],
               sec_end := clock w (ticks w + 2),
               elapsed := Some (getTime (clock w (ticks w + 2)) - getTime (sec_start s))\<rparr>)"
    and "ticks w' = ticks w + 4"
    by simp_all
qed

text \<open>Runs of the example logger, evaluated once.\<close>

lemmas eval_ops = eval_defs logException_def andThen_def pushLog_def getLogObject_def
  closeSection_def section_at_def put_section_def dateToString_stamp info_def

lemma log1_ok: "createSection ''Phase 1'' ''P1'' log0 = (None, log1)"
proof -
  have "fst (createSection ''Phase 1'' ''P1'' log0) = None" by (simp add: eval_defs)
  then show ?thesis by (simp add: log1_def prod_eq_iff)
qed

lemma log2_ok: "info ''P1'' ''<b>started</b>'' log1 = (None, log2)"
proof -
  have "fst (info ''P1'' ''<b>started</b>'' log1) = None" by (simp add: log1_def eval_ops)
  then show ?thesis by (simp add: log2_def prod_eq_iff)
qed

lemma logE1_ok: "logException ''ERROR'' ''boom'' log0 = (None, logE1)"
proof -
  have "fst (logException ''ERROR'' ''boom'' log0) = None" by (simp add: eval_ops)
  then show ?thesis by (simp add: logE1_def prod_eq_iff)
qed

lemma logE2_ok: "logException ''DEBUG'' ''again'' logE1 = (None, logE2)"
proof -
  have "fst (logException ''DEBUG'' ''again'' logE1) = None" by (simp add: logE1_def eval_ops)
  then show ?thesis by (simp add: logE2_def prod_eq_iff)
qed

lemma log0_fields:
  "title log0 = ''Import''" "description log0 = ''desc''" "logsPath log0 = ''/tmp/logs''"
  "log_start log0 = clock0 0" "sections log0 = []" "proto log0 = None" "\<not> objproto_end log0"
  "clock log0 = clock0" "ticks log0 = 1" "fs log0 = memfs"
  by (simp_all add: log0_def newLog_def)

lemma clock0_stamp: "dateToString (clock0 n) ''dd/mm/yyyy H:i:s'' = ''05/03/2024 9:7:3''"
  by (simp add: dateToString_stamp clock0_def pad2_def numToString_def digits.simps digit_def)

lemma logE1_fields: "clock logE1 = clock0" "ticks logE1 = 8"
proof -
  have "sameInstance log0 logE1"
    unfolding logE1_def by (rule sameInstance_logException)
  then show "clock logE1 = clock0" by (simp add: sameInstance_def log0_fields)
  from logException_first(2) [OF _ logE1_ok] show "ticks logE1 = 8"
    by (simp add: log0_fields)
qed

subsection \<open>The structure of the document\<close>

lemma foldl_append_concat:
  "foldl (\<lambda>acc x. acc @ f x) a xs = a @ concat (map f xs)"
  by (induction xs arbitrary: a) simp_all

lemma toc_concat: "toc w = concat (map (\<lambda>(i, s). tocItem s) (for_in w))"
  using foldl_append_concat [of "\<lambda>(i, s). tocItem s" "[]" "for_in w"]
  by (simp add: toc_def case_prod_unfold)

lemma body_concat: "body w = concat (map (\<lambda>(i, s). sectionBlock w s) (for_in w))"
  using foldl_append_concat [of "\<lambda>(i, s). sectionBlock w s" "[]" "for_in w"]
  by (simp add: body_def case_prod_unfold)

lemma logsOf_concat:
  "logsOf w s = concat (map logLine (logs s)) @ (if objproto_end w then undefinedLine else [])"
  using foldl_append_concat [of logLine "[]" "logs s"] by (simp add: logsOf_def)

lemma mset_for_in: "mset (for_in w) = mset (sections w)"
  by (simp add: for_in_def)

lemma set_for_in: "set (for_in w) = set (sections w)"
  using mset_for_in [of w] by (metis set_mset_mset)

lemma render_document:
  assumes "render w = Inr html"
  obtains e where "log_end w = Some e" and "inherited w = []" and "html = document w e"
  using assms by (auto simp: render_def split: option.splits if_splits)

lemma document_disk [simp]: "document (w\<lparr>disk := d\<rparr>) e = document w e"
  by (simp add: document_def docHead_def toc_def body_def for_in_def sectionBlock_def
      logsOf_def)

lemma save_writes:
  assumes "fst (save w) = None"
  shows "\<exists>d. writeFileSync (fs w) d (pathOf w) (document (snd (save w)) (now w)) =
           Some (disk (snd (save w)))"
proof -
  obtain r w1 where p: "prepareSave w = (r, w1)" by (cases "prepareSave w")
  then have w1: "w1 = snd (prepareSave w)" by simp
  from assms p obtain path where r: "r = Inr path"
    by (cases r) (auto simp: save_def)
  from p r have path: "path = pathOf w" by (simp add: prepareSave_path)
  from assms p r obtain html where html: "render w1 = Inr html"
    by (cases "render w1") (auto simp: save_def)
  then obtain e where "log_end w1 = Some e" and "html = document w1 e"
    by (rule render_document)
  then have doc: "html = document w1 (now w)" by (simp add: w1)
  from assms p r html obtain d where wr: "writeFileSync (fs w1) (disk w1) path html = Some d"
    and s: "snd (save w) = w1\<lparr>disk := d\<rparr>"
    by (cases "writeFileSync (fs w1) (disk w1) path html") (auto simp: save_def)
  have "fs w1 = fs w"
    using arg_cong [OF prepareSave_state, of fs w] by (simp add: w1)
  with wr path doc s show ?thesis by auto
qed

text \<open>Only a failed \<open>closeSection\<close> under the key of the prototype touches \<open>Object.prototype\<close>.\<close>

lemma objproto_end_createSection [simp]:
  "objproto_end (snd (createSection nm k w)) = objproto_end w"
  by (simp add: createSection_def Let_def tick_def)

lemma objproto_end_pushLog [simp]:
  "objproto_end (snd (pushLog ty k v w)) = objproto_end w"
  by (simp add: pushLog_def getLogObject_def Let_def tick_def put_section_def
      split: option.splits)

lemma objproto_end_closeSection:
  "fst (closeSection k w) = None \<or> k \<noteq> ''__proto__'' \<Longrightarrow>
   objproto_end (snd (closeSection k w)) = objproto_end w"
  by (auto simp: closeSection_def Let_def tick_def put_section_def split: option.splits)

lemma objproto_end_andThen:
  assumes "objproto_end (snd r) = objproto_end w"
    and "\<And>w1. objproto_end (snd (f w1)) = objproto_end w1"
  shows "objproto_end (snd (andThen r f)) = objproto_end w"
  using assms by (cases r; cases "fst r") (auto simp: andThen_def)

lemma objproto_end_logException [simp]:
  "objproto_end (snd (logException ty m w)) = objproto_end w"
  unfolding logException_def
  by (intro objproto_end_andThen) (simp_all add: objproto_end_closeSection)

lemma objproto_end_exec:
  "fst (exec c w) = None \<Longrightarrow> objproto_end (snd (exec c w)) = objproto_end w"
  by (cases c)
    (simp_all add: objproto_end_closeSection info_def error_def debug_def errorException_def
      debugException_def)

lemma objproto_end_run: "run cs w = Inr w' \<Longrightarrow> objproto_end w' = objproto_end w"
proof (induction cs arbitrary: w)
  case Nil
  then show ?case by simp
next
  case (Cons c cs)
  obtain e w1 where ex: "exec c w = (e, w1)" by (cases "exec c w")
  with Cons.prems have e: "e = None" and r: "run cs w1 = Inr w'"
    by (cases e; simp)+
  from ex e objproto_end_exec [of c w] have "objproto_end w1 = objproto_end w" by simp
  with Cons.IH [OF r] show ?case by simp
qed

lemma sublist_trans: "sublist a b \<Longrightarrow> sublist b c \<Longrightarrow> sublist a c"
  by (rule sublist_order.order_trans)

lemma sublist_concat: "x \<in> set xs \<Longrightarrow> sublist x (concat xs)"
proof -
  assume "x \<in> set xs"
  then obtain ys zs where "xs = ys @ x # zs" by (auto dest: split_list)
  then have "concat xs = concat ys @ x @ concat zs" by simp
  then show ?thesis by (simp only: sublist_appendI)
qed

lemma sublist_in: "sublist x m \<Longrightarrow> sublist x (a @ m @ b)"
  by (rule sublist_trans [OF _ sublist_appendI])

lemma document_title: "sublist (title w) (document w e)"
  unfolding document_def docHead_def append_assoc by (rule sublist_in [of _ _ doc_open]) simp

lemma document_description: "sublist (description w) (document w e)"
proof -
  have "document w e = (doc_open @ title w @ title_sep @
      dateToString (log_start w) ''dd/mm/yyyy H:i:s'' @ doc_style_script @ title w @ h1_close) @
      description w @ (summary_open @
      dateToString (log_start w) ''dd/mm/yyyy H:i:s'' @ finished_open @
      dateToString e ''dd/mm/yyyy H:i:s'' @ controls @ toc w @ ul_close @ body w @ doc_close)"
    by (simp add: document_def docHead_def)
  then show ?thesis by (simp only: sublist_appendI)
qed

lemma document_block:
  assumes "(k, s) \<in> set (sections w)"
  shows "sublist (sectionBlock w s) (document w e)"
proof -
  from assms have "(k, s) \<in> set (for_in w)" by (simp add: set_for_in)
  then have "sectionBlock w s \<in> set (map (\<lambda>(i, s). sectionBlock w s) (for_in w))"
    by force
  then have "sublist (sectionBlock w s) (body w)"
    unfolding body_concat by (rule sublist_concat)
  then show ?thesis unfolding document_def by (rule sublist_in)
qed

lemma block_key: "sublist (key s) (sectionBlock w s)"
proof -
  have "sectionBlock w s = sec_open @ key s @ (sec_mid @ name s @ sec_started @
      dateToString (sec_start s) ''dd/mm/yyyy H:i:s'' @ sec_finished @
      dateToString (sec_end s) ''dd/mm/yyyy H:i:s'' @ sec_logs_open @ logsOf w s @ sec_close)"
    by (simp add: sectionBlock_def sectionHead_def)
  then show ?thesis by (simp only: sublist_appendI)
qed

lemma block_name: "sublist (name s) (sectionBlock w s)"
proof -
  have "sectionBlock w s = (sec_open @ key s @ sec_mid) @ name s @ (sec_started @
      dateToString (sec_start s) ''dd/mm/yyyy H:i:s'' @ sec_finished @
      dateToString (sec_end s) ''dd/mm/yyyy H:i:s'' @ sec_logs_open @ logsOf w s @ sec_close)"
    by (simp add: sectionBlock_def sectionHead_def)
  then show ?thesis by (simp only: sublist_appendI)
qed

lemma block_value:
  assumes "l \<in> set (logs s)"
  shows "sublist (evalue l) (sectionBlock w s)"
proof -
  have "logLine l = (log_open @ etype l @ log_mid @ etype l @ log_date_open @ dateTime l @
      log_date_close) @ evalue l @ log_close"
    by (simp add: logLine_def)
  then have "sublist (evalue l) (logLine l)" by (simp only: sublist_appendI)
  moreover from assms have "sublist (logLine l) (concat (map logLine (logs s)))"
    by (intro sublist_concat) simp
  ultimately have "sublist (evalue l) (concat (map logLine (logs s)))"
    by (rule sublist_trans)
  then have "sublist (evalue l) (sectionHead s @ concat (map logLine (logs s)) @
      ((if objproto_end w then undefinedLine else []) @ sec_close))"
    by (rule sublist_in)
  then show ?thesis by (simp add: sectionBlock_def logsOf_concat)
qed

lemma inherited_save [simp]: "inherited (snd (save w)) = inherited w"
  by (simp add: inherited_def cong: option.case_cong)

lemma render_after_save:
  assumes "fst (save w) = None"
  shows "render (snd (save w)) = Inr (document (snd (save w)) (now w))"
proof -
  from assms have "inherited w = []" by (rule save_ok_render)
  then show ?thesis by (simp add: render_def)
qed

lemma update_fresh:
  "k \<notin> fst ` set al \<Longrightarrow> AList.update k v al = al @ [(k, v)]"
  by (induction al) auto

lemma run_creates:
  assumes "run (map (\<lambda>(nm, k). CreateSection nm k) nks) w = Inr w'"
    and "\<forall>(nm, k) \<in> set nks. k \<noteq> ''__proto__''"
    and "distinct (map snd nks)"
    and "snd ` set nks \<inter> fst ` set (sections w) = {}"
  shows "map (\<lambda>(k, s). (k, name s, key s)) (sections w') =
         map (\<lambda>(k, s). (k, name s, key s)) (sections w) @ map (\<lambda>(nm, k). (k, nm, k)) nks"
  using assms
proof (induction nks arbitrary: w)
  case Nil
  then show ?case by simp
next
  case (Cons a nks)
  obtain nm k where a: "a = (nm, k)" by (cases a)
  let ?rec = "\<lparr>key = k, name = nm, sec_start = clock w (ticks w),
      sec_end = clock w (ticks w + 1), elapsed = None, logs = []\<rparr>"
  obtain e w1 where ex: "createSection nm k w = (e, w1)" by (cases "createSection nm k w")
  with Cons.prems(1) a have e: "e = None"
    and r: "run (map (\<lambda>(nm, k). CreateSection nm k) nks) w1 = Inr w'"
    by (cases e; simp)+
  from Cons.prems(2) a have k: "k \<noteq> ''__proto__''" by simp
  from Cons.prems(4) a have fresh: "k \<notin> fst ` set (sections w)" by auto
  from ex have "w1 = snd (createSection nm k w)" by simp
  then have s1: "sections w1 = sections w @ [(k, ?rec)]"
    by (simp add: createSection_own [OF k] update_fresh [OF fresh])
  from Cons.prems(3,4) a have disj: "snd ` set nks \<inter> fst ` set (sections w1) = {}"
    by (auto simp: s1)
  from Cons.prems(2,3) have "\<forall>(nm, k) \<in> set nks. k \<noteq> ''__proto__''" and "distinct (map snd nks)"
    by simp_all
  from Cons.IH [OF r this disj] show ?case by (simp add: s1 a)
qed

lemma for_in_plain:
  assumes "\<forall>(k, s) \<in> set (sections w). \<not> isArrayIndex k"
  shows "for_in w = sections w"
proof -
  from assms have "filter (\<lambda>(k, s). isArrayIndex k) (sections w) = []"
    by (auto simp: filter_empty_conv)
  moreover from assms have "filter (\<lambda>(k, s). \<not> isArrayIndex k) (sections w) = sections w"
    by (auto simp: filter_id_conv)
  ultimately show ?thesis by (simp add: for_in_def)
qed

lemma logBA_ok:
  "run [CreateSection ''First'' ''b'', CreateSection ''Second'' ''a''] log0 = Inr logBA"
proof -
  have "fst (createSection ''First'' ''b'' log0) = None" by (simp add: eval_defs)
  then obtain w1 where c1: "createSection ''First'' ''b'' log0 = (None, w1)"
    by (cases "createSection ''First'' ''b'' log0") auto
  have "fst (createSection ''Second'' ''a'' (snd (createSection ''First'' ''b'' log0))) =
      None"
    by (simp add: eval_defs)
  then obtain w2 where c2: "createSection ''Second'' ''a'' w1 = (None, w2)"
    by (cases "createSection ''Second'' ''a'' w1") (auto simp: c1)
  have "logBA = w2" by (simp add: logBA_def c1 c2)
  then show ?thesis by (simp add: c1 c2)
qed

lemma log21_ok:
  "run [CreateSection ''First'' ''2'', CreateSection ''Second'' ''1''] log0 = Inr log21"
proof -
  have "fst (createSection ''First'' ''2'' log0) = None" by (simp add: eval_defs)
  then obtain w1 where c1: "createSection ''First'' ''2'' log0 = (None, w1)"
    by (cases "createSection ''First'' ''2'' log0") auto
  have "fst (createSection ''Second'' ''1'' (snd (createSection ''First'' ''2'' log0))) =
      None"
    by (simp add: eval_defs)
  then obtain w2 where c2: "createSection ''Second'' ''1'' w1 = (None, w2)"
    by (cases "createSection ''Second'' ''1'' w1") (auto simp: c1)
  have "log21 = w2" by (simp add: log21_def c1 c2)
  then show ?thesis by (simp add: c1 c2)
qed

lemma log1_fields:
  "sections log1 =
     [(''P1'', \<lparr>key = ''P1'', name = ''Phase 1'', sec_start = clock0 1, sec_end = clock0 2,
                elapsed = None, logs = []\<rparr>)]"
  "proto log1 = None" "\<not> objproto_end log1" "log_end log1 = Some (clock0 3)"
  "clock log1 = clock0" "ticks log1 = 4" "title log1 = ''Import''" "description log1 = ''desc''"
  "logsPath log1 = ''/tmp/logs''" "log_start log1 = clock0 0" "fs log1 = memfs"
  by (simp_all add: log1_def createSection_own log0_fields now_def eval_nat_numeral)

lemma log2_fields:
  "sections log2 =
     [(''P1'', \<lparr>key = ''P1'', name = ''Phase 1'', sec_start = clock0 1, sec_end = clock0 2,
                elapsed = None,
                logs = [\<lparr>etype = ''INFO'', evalue = ''<b>started</b>'',
                         dateTime = ''05/03/2024 9:7:3''\<rparr>]\<rparr>)]"
  "proto log2 = None" "\<not> objproto_end log2" "log_end log2 = Some (clock0 5)"
  "title log2 = ''Import''" "description log2 = ''desc''"
proof -
  have s: "map_of (sections log1) ''P1'' =
      Some \<lparr>key = ''P1'', name = ''Phase 1'', sec_start = clock0 1, sec_end = clock0 2,
            elapsed = None, logs = []\<rparr>"
    by (simp add: log1_fields)
  show "sections log2 =
     [(''P1'', \<lparr>key = ''P1'', name = ''Phase 1'', sec_start = clock0 1, sec_end = clock0 2,
                elapsed = None,
                logs = [\<lparr>etype = ''INFO'', evalue = ''<b>started</b>'',
                         dateTime = ''05/03/2024 9:7:3''\<rparr>]\<rparr>)]"
    "proto log2 = None" "\<not> objproto_end log2" "log_end log2 = Some (clock0 5)"
    "title log2 = ''Import''" "description log2 = ''desc''"
    by (simp_all add: log2_def info_def pushLog_own [OF s] log1_fields now_def clock0_stamp)
qed

lemma render_log1: "render log1 = Inr (document log1 (clock0 3))"
  by (simp add: render_def inherited_def log1_fields)

lemma render_log2: "render log2 = Inr (document log2 (clock0 5))"
  by (simp add: render_def inherited_def log2_fields)

lemma run_log1: "run [CreateSection ''Phase 1'' ''P1''] log0 = Inr log1"
  by (simp add: log1_ok)

lemma run_log2:
  "run [CreateSection ''Phase 1'' ''P1'', Info ''P1'' ''<b>started</b>''] log0 = Inr log2"
  by (simp add: log1_ok log2_ok)

lemma for_in_log2: "for_in log2 = sections log2"
  by (rule for_in_plain) (simp add: log2_fields isArrayIndex_def)

lemma pathOf_log1: "pathOf log1 = ''/tmp/logs/2024/03/05/Import_20240305_973.html''"
  by (simp add: pathOf_def log1_fields clock0_def pad2_def numToString_def digits.simps
      digit_def)

subsection \<open>The first occurrence of a pattern\<close>

lemma find_map_Suc: "find P (map Suc xs) = map_option Suc (find (\<lambda>i. P (Suc i)) xs)"
  by (induction xs) simp_all

lemma firstIndex_Nil: "firstIndex pat [] = (if pat = [] then Some 0 else None)"
  by (simp add: firstIndex_def)

lemma firstIndex_Cons:
  "firstIndex pat (c # cs) =
     (if prefix pat (c # cs) then Some 0 else map_option Suc (firstIndex pat cs))"
proof -
  have "[0..<Suc (Suc (length cs))] = 0 # [Suc 0..<Suc (Suc (length cs))]"
    by (rule upt_conv_Cons) simp
  also have "[Suc 0..<Suc (Suc (length cs))] = map Suc [0..<Suc (length cs)]"
    by (rule map_Suc_upt [symmetric])
  finally have upt: "[0..<Suc (Suc (length cs))] = 0 # map Suc [0..<Suc (length cs)]" .
  have "firstIndex pat (c # cs) =
      find (\<lambda>i. prefix pat (drop i (c # cs))) (0 # map Suc [0..<Suc (length cs)])"
    unfolding firstIndex_def using upt by (simp del: upt_Suc)
  then show ?thesis
    by (simp add: firstIndex_def find_map_Suc del: upt_Suc)
qed

lemma replace_replaceFirst: "replace pat rep s = replaceFirst pat rep s"
proof (induction s)
  case Nil
  show ?case by (simp add: replaceFirst_def firstIndex_Nil)
next
  case (Cons c cs)
  show ?case
  proof (cases "prefix pat (c # cs)")
    case True
    then show ?thesis by (simp add: replaceFirst_def firstIndex_Cons)
  next
    case False
    with Cons show ?thesis
      by (cases "firstIndex pat cs") (simp_all add: replaceFirst_def firstIndex_Cons)
  qed
qed

lemma firstIndex_Some:
  assumes "firstIndex pat s = Some i"
  shows "i \<le> length s \<and> prefix pat (drop i s) \<and> (\<forall>j<i. \<not> prefix pat (drop j s))"
proof -
  from assms obtain n where n: "n < length [0..<Suc (length s)]"
    and p: "prefix pat (drop ([0..<Suc (length s)] ! n) s)"
    and i: "i = [0..<Suc (length s)] ! n"
    and least: "\<forall>j<n. \<not> prefix pat (drop ([0..<Suc (length s)] ! j) s)"
    unfolding firstIndex_def find_Some_iff by blast
  from n have "n < Suc (length s)" by simp
  then have nth: "[0..<Suc (length s)] ! n = n" "\<And>j. j < n \<Longrightarrow> [0..<Suc (length s)] ! j = j"
    by (simp_all del: upt_Suc)
  from i nth have "i = n" by simp
  with n p least nth show ?thesis by (auto simp del: upt_Suc)
qed

lemma firstIndex_None:
  assumes "firstIndex pat s = None"
  shows "\<not> sublist pat s"
proof
  assume "sublist pat s"
  then obtain ps ss where s: "s = ps @ pat @ ss" by (auto simp: sublist_def)
  then have "prefix pat (drop (length ps) s)" by simp
  moreover from s have "length ps \<in> set [0..<Suc (length s)]" by simp
  ultimately show False using assms unfolding firstIndex_def find_None_iff by blast
qed

lemma replace_no_occurrence: "\<not> sublist pat s \<Longrightarrow> replace pat rep s = s"
proof (induction s)
  case Nil
  then show ?case by auto
next
  case (Cons c cs)
  then have "\<not> prefix pat (c # cs)" and "\<not> sublist pat cs"
    by (auto simp: sublist_Cons_right)
  with Cons.IH show ?case by simp
qed

lemma replace_first_at:
  assumes "\<forall>j<length pre. \<not> prefix pat (drop j (pre @ pat @ rest))"
  shows "replace pat rep (pre @ pat @ rest) = pre @ rep @ rest"
  using assms
proof (induction pre)
  case Nil
  show ?case by (simp add: replace_here)
next
  case (Cons c cs)
  from Cons.prems have "\<not> prefix pat (c # cs @ pat @ rest)" by force
  moreover from Cons.prems have "\<forall>j<length cs. \<not> prefix pat (drop j (cs @ pat @ rest))"
    by force
  ultimately show ?case using Cons.IH by simp
qed

lemma foldl_replace_absent:
  assumes "\<forall>(p, r) \<in> set tks. \<not> sublist p s"
  shows "foldl (\<lambda>t (p, r). replace p r t) s tks = s"
  using assms by (induction tks) (auto simp: replace_no_occurrence)

lemma no_new_occurrence:
  assumes pat: "pat \<noteq> []" and letters: "set pat \<inter> set v = {}" and v: "v \<noteq> []"
    and a: "\<not> sublist pat a" and b: "\<not> sublist pat b"
  shows "\<not> sublist pat (a @ v @ b)"
proof
  assume "sublist pat (a @ v @ b)"
  then consider "sublist pat a" | "sublist pat (v @ b)"
    | xs1 xs2 where "pat = xs1 @ xs2" "suffix xs1 a" "prefix xs2 (v @ b)"
    unfolding sublist_append [of pat a] by blast
  then show False
  proof cases
    case 1
    with a show False by simp
  next
    case 2
    then consider "sublist pat v" | "sublist pat b"
      | ys1 ys2 where "pat = ys1 @ ys2" "suffix ys1 v" "prefix ys2 b"
      unfolding sublist_append [of pat v] by blast
    then show False
    proof cases
      case 1
      then have "set pat \<subseteq> set v" by (rule set_mono_sublist)
      with pat letters show False by (cases pat) auto
    next
      case 2
      with b show False by simp
    next
      case 3
      show False
      proof (cases "ys1 = []")
        case True
        with 3 have "prefix pat b" by simp
        then have "sublist pat b" by (rule prefix_imp_sublist)
        with b show False by simp
      next
        case False
        from 3(2) have "set ys1 \<subseteq> set v" by (rule set_mono_suffix)
        with False 3(1) letters show False by (cases ys1) auto
      qed
    qed
  next
    case 3
    show False
    proof (cases xs2)
      case Nil
      with 3 have "suffix pat a" by simp
      then have "sublist pat a" by (rule suffix_imp_sublist)
      with a show False by simp
    next
      case (Cons x xs)
      with 3(3) v have "x \<in> set v" by (cases v) auto
      moreover from Cons 3(1) have "x \<in> set pat" by simp
      ultimately show False using letters by auto
    qed
  qed
qed

lemma digits_nonempty: "digits n \<noteq> []"
  by (simp add: digits.simps [of n])

lemma numToString_nonempty: "numToString n \<noteq> []"
  by (simp add: numToString_def digits_nonempty)

lemma pad2_nonempty: "pad2 n \<noteq> []"
  by (simp add: pad2_def numToString_nonempty)

lemma tokens_cases:
  assumes "(p, r) \<in> set (tokens d)"
  obtains "p = ''dd''" "r = pad2 (getDate d)" | "p = ''mm''" "r = pad2 (getMonth d + 1)"
    | "p = ''yyyy''" "r = numToString (getFullYear d)" | "p = ''H''" "r = numToString (getHours d)"
    | "p = ''i''" "r = numToString (getMinutes d)" | "p = ''s''" "r = numToString (getSeconds d)"
  using assms unfolding tokens_def by fastforce

lemma tokens_props:
  assumes "(p, r) \<in> set (tokens d)"
  shows "p \<noteq> []" and "set p \<subseteq> set ''dmyHis''" and "plain r" and "r \<noteq> []"
  using assms
  by (cases rule: tokens_cases;
      simp add: pad2_plain numToString_plain pad2_nonempty numToString_nonempty)+

lemma distinct_tokens: "distinct (map fst (tokens d))"
  by (simp add: tokens_def)

lemma plain_disjoint: "plain r \<Longrightarrow> set p \<subseteq> set ''dmyHis'' \<Longrightarrow> set p \<inter> set r = {}"
  unfolding plain_def list_all_iff by blast

lemma sublist_of_part: "\<not> sublist p (a @ m @ b) \<Longrightarrow> \<not> sublist p m"
  using sublist_order.order_trans [of p m "a @ m @ b"] by auto

lemma distinct_fst_split:
  assumes "distinct (map fst (xs @ (k, v) # ys))" and "(p, r) \<in> set xs \<union> set ys"
  shows "p \<noteq> k"
proof
  assume "p = k"
  with assms(2) have "k \<in> fst ` set xs \<or> k \<in> fst ` set ys"
    by (metis Un_iff fst_conv image_eqI)
  with assms(1) show False by simp
qed

lemma dateToString_token_twice:
  assumes mem: "(tok, v) \<in> set (tokens d)"
    and first: "\<forall>j<length pre. \<not> prefix tok (drop j (pre @ tok @ mid @ tok @ post))"
    and others: "\<forall>(tok', v') \<in> set (tokens d).
                   tok' \<noteq> tok \<longrightarrow> \<not> sublist tok' (pre @ tok @ mid @ tok @ post)"
  shows "dateToString d (pre @ tok @ mid @ tok @ post) = pre @ v @ mid @ tok @ post"
proof -
  let ?t = "pre @ tok @ mid @ tok @ post"
  let ?t' = "pre @ v @ mid @ tok @ post"
  let ?f = "\<lambda>t (p, r). replace p r t"
  from mem obtain before after where decomp: "tokens d = before @ (tok, v) # after"
    by (auto dest: split_list)
  have dist: "distinct (map fst (before @ (tok, v) # after))"
    using distinct_tokens [of d] by (simp only: decomp)
  have in_tokens: "(p, r) \<in> set (tokens d)" if "(p, r) \<in> set before \<union> set after" for p r
    using that by (auto simp add: decomp)
  have absent: "\<not> sublist p ?t" if "(p, r) \<in> set before \<union> set after" for p r
  proof -
    from dist that have "p \<noteq> tok" by (rule distinct_fst_split)
    moreover from that have "(p, r) \<in> set (tokens d)" by (rule in_tokens)
    ultimately show ?thesis using others by (auto dest!: bspec)
  qed
  have "\<forall>(p, r) \<in> set before. \<not> sublist p ?t"
  proof (intro ballI)
    fix x
    assume "x \<in> set before"
    then have "(fst x, snd x) \<in> set before \<union> set after" by simp
    from absent [OF this] show "case x of (p, r) \<Rightarrow> \<not> sublist p ?t"
      by (simp add: split_beta)
  qed
  then have one: "foldl ?f ?t before = ?t"
    by (rule foldl_replace_absent)
  have two: "replace tok v ?t = ?t'"
    using first by (rule replace_first_at)
  have three: "foldl ?f ?t' after = ?t'"
  proof (rule foldl_replace_absent, clarify)
    fix p r
    assume pr: "(p, r) \<in> set after" and sub: "sublist p ?t'"
    then have t: "\<not> sublist p ?t" using absent [of p r] by simp
    from pr have m: "(p, r) \<in> set (tokens d)" using in_tokens [of p r] by simp
    have a: "\<not> sublist p pre"
      using sublist_of_part [of p "[]" pre "tok @ mid @ tok @ post"] t by simp
    have b: "\<not> sublist p (mid @ tok @ post)"
      using sublist_of_part [of p "pre @ tok" "mid @ tok @ post" "[]"] t by simp
    from tokens_props(3) [OF mem] tokens_props(2) [OF m] have "set p \<inter> set v = {}"
      by (rule plain_disjoint)
    from no_new_occurrence [OF tokens_props(1) [OF m] this tokens_props(4) [OF mem] a b] sub
    show False by simp
  qed
  have "dateToString d ?t = foldl ?f (replace tok v (foldl ?f ?t before)) after"
    by (simp only: dateToString_tokens decomp foldl_append foldl_Cons prod.case)
  also have "\<dots> = ?t'" by (simp only: one two three)
  finally show ?thesis .
qed

subsection \<open>The journal of a sequence of calls\<close>

lemma map_logs_update:
  "map (\<lambda>(k, s). (k, f s)) (AList.update k0 s0 xs) =
   AList.update k0 (f s0) (map (\<lambda>(k, s). (k, f s)) xs)"
  by (induction xs) auto

lemma map_of_map_logs:
  "map_of (map (\<lambda>(k, s). (k, f s)) xs) k = map_option f (map_of xs k)"
  by (induction xs) auto

lemma list_all_update:
  "list_all P xs \<Longrightarrow> P (k, v) \<Longrightarrow> list_all P (AList.update k v xs)"
  by (induction xs) auto

lemma list_all_key:
  "list_all (\<lambda>(k, s). key s = k) xs \<Longrightarrow> map_of xs k = Some s \<Longrightarrow> key s = k"
  by (induction xs) (auto split: if_splits)

lemma agrees_new: "agrees (newLog t d p api dk clk) clk (1, [])"
  by (simp add: agrees_def newLog_def)

lemma agrees_save:
  assumes "agrees w clk (n, j)"
  shows "agrees (snd (save w)) clk (n + 1, j)"
  using assms by (simp add: agrees_def)

lemma agrees_createSection:
  assumes "agrees w clk (n, j)" and "k \<noteq> ''__proto__''"
  shows "agrees (snd (createSection nm k w)) clk (n + 3, AList.update k [] j)"
  using assms
  by (auto simp: agrees_def createSection_def Let_def tick_def map_logs_update
      intro!: list_all_update)

lemma closeSection_missing:
  assumes "section_at w k = None" and "k \<noteq> ''__proto__''"
  shows "closeSection k w = (Some TypeError, w\<lparr>ticks := ticks w + 1\<rparr>)"
proof -
  from assms have "section_at (tick w) k = None" by simp
  then show ?thesis using assms(2) by (simp add: closeSection_def Let_def tick_def)
qed

lemma agrees_closeSection:
  assumes "agrees w clk (n, j)" and "k \<noteq> ''__proto__''"
  shows "agrees (snd (closeSection k w)) clk (if map_of j k = None then n + 1 else n + 2, j)"
proof (cases "map_of (sections w) k")
  case None
  with assms have "map_of j k = None"
    using map_of_map_logs [of logs "sections w" k] by (auto simp: agrees_def)
  moreover from None assms(2) have "section_at w k = None" by (simp add: section_at_def)
  ultimately show ?thesis
    using assms by (simp add: closeSection_missing agrees_def)
next
  case (Some s)
  with assms have j: "map_of j k = Some (logs s)"
    using map_of_map_logs [of logs "sections w" k] by (auto simp: agrees_def)
  then have "AList.update k (logs s) j = j" by (simp add: update_triv)
  moreover from Some assms(1) have "key s = k" by (auto simp: agrees_def dest: list_all_key)
  ultimately show ?thesis
    using assms Some j
    by (auto simp: closeSection_own agrees_def map_logs_update intro!: list_all_update)
qed

lemma agrees_pushLog:
  assumes "agrees w clk (n, j)" and "k \<noteq> ''__proto__''"
  shows "agrees (snd (pushLog ty k v w)) clk (noteEntry clk ty k v (n, j))"
proof (cases "map_of (sections w) k")
  case None
  with assms have "map_of j k = None"
    using map_of_map_logs [of logs "sections w" k] by (auto simp: agrees_def)
  moreover from None assms(2) have "section_at w k = None" by (simp add: section_at_def)
  ultimately show ?thesis
    using assms by (simp add: pushLog_missing noteEntry_def agrees_def)
next
  case (Some s)
  with assms have j: "map_of j k = Some (logs s)"
    using map_of_map_logs [of logs "sections w" k] by (auto simp: agrees_def)
  moreover from Some assms(1) have "key s = k" by (auto simp: agrees_def dest: list_all_key)
  ultimately show ?thesis
    using assms Some
    by (auto simp: pushLog_own noteEntry_def agrees_def map_logs_update now_def
        intro!: list_all_update)
qed

lemma agrees_exec:
  assumes "agrees w clk nj" and "basic c" and "keyOf c \<noteq> Some ''__proto__''"
  shows "agrees (snd (exec c w)) clk (noted clk nj c)"
proof -
  obtain n j where nj: "nj = (n, j)" by (cases nj)
  note a = assms(1) [unfolded nj]
  show ?thesis
  proof (cases c)
    case (CreateSection nm k)
    with assms(3) agrees_createSection [OF a, of k nm] show ?thesis by (simp add: nj)
  next
    case (CloseSection k)
    with assms(3) agrees_closeSection [OF a, of k] show ?thesis by (simp add: nj)
  next
    case (Info k v)
    with assms(3) agrees_pushLog [OF a, of k "''INFO''" v] show ?thesis
      by (simp add: nj info_def)
  next
    case (Error k v)
    with assms(3) agrees_pushLog [OF a, of k "''ERROR''" v] show ?thesis
      by (simp add: nj error_def)
  next
    case (Debug k v)
    with assms(3) agrees_pushLog [OF a, of k "''DEBUG''" v] show ?thesis
      by (simp add: nj debug_def)
  next
    case Save
    with agrees_save [OF a] show ?thesis by (simp add: nj)
  next
    case (ErrorException m)
    with assms(2) show ?thesis by simp
  next
    case (DebugException m)
    with assms(2) show ?thesis by simp
  qed
qed

lemma agrees_runAll:
  assumes "\<forall>c \<in> set cs. basic c \<and> keyOf c \<noteq> Some ''__proto__''" and "agrees w clk nj"
  shows "agrees (runAll cs w) clk (foldl (noted clk) nj cs)"
  using assms
proof (induction cs arbitrary: w nj)
  case Nil
  then show ?case by simp
next
  case (Cons c cs)
  from Cons.prems have "agrees (snd (exec c w)) clk (noted clk nj c)"
    by (simp add: agrees_exec)
  with Cons.prems(1) show ?case by (simp add: Cons.IH)
qed

lemma run_runAll:
  assumes "run cs w = Inr w'"
  shows "w' = runAll cs w"
  using assms
proof (induction cs arbitrary: w)
  case Nil
  then show ?case by simp
next
  case (Cons c cs)
  obtain e w1 where ex: "exec c w = (e, w1)" by (cases "exec c w")
  with Cons.prems have "e = None" and "run cs w1 = Inr w'"
    by (cases e; simp)+
  with Cons.IH [of w1] ex show ?case by simp
qed

lemma log_end_closeSection:
  "log_end w \<noteq> None \<Longrightarrow> log_end (snd (closeSection k w)) \<noteq> None"
  by (simp add: closeSection_def Let_def tick_def split: option.splits)

lemma log_end_pushLog:
  "log_end w \<noteq> None \<Longrightarrow> log_end (snd (pushLog ty k v w)) \<noteq> None"
  by (simp add: pushLog_def getLogObject_def Let_def tick_def split: option.splits)

lemma log_end_exec:
  assumes "basic c" and "saving c \<or> log_end w \<noteq> None"
  shows "log_end (snd (exec c w)) \<noteq> None"
  using assms
  by (cases c)
     (simp_all add: createSection_def Let_def info_def error_def debug_def
        log_end_closeSection log_end_pushLog)

lemma log_end_runAll:
  assumes "\<forall>c \<in> set cs. basic c" and "list_ex saving cs \<or> log_end w \<noteq> None"
  shows "log_end (runAll cs w) \<noteq> None"
  using assms
proof (induction cs arbitrary: w)
  case Nil
  then show ?case by simp
next
  case (Cons c cs)
  show ?case
  proof (cases "saving c \<or> log_end w \<noteq> None")
    case True
    with Cons.prems(1) have "log_end (snd (exec c w)) \<noteq> None" by (simp add: log_end_exec)
    with Cons.prems(1) show ?thesis by (simp add: Cons.IH)
  next
    case False
    with Cons.prems have "list_ex saving cs" by simp
    with Cons.prems(1) show ?thesis by (simp add: Cons.IH)
  qed
qed

lemma unsaved_exec:
  assumes "basic c" and "\<not> saving c"
    and "sections w = []" and "proto w = None" and "log_end w = None"
  shows "sections (snd (exec c w)) = [] \<and> proto (snd (exec c w)) = None \<and>
         log_end (snd (exec c w)) = None"
proof -
  have "section_at w k = None" for k using assms(3,4) by (simp add: section_at_def)
  then have "section_at (tick w) k = None" for k by simp
  then show ?thesis
    using assms
    by (cases c)
       (simp_all add: closeSection_def pushLog_def getLogObject_def Let_def info_def error_def
          debug_def tick_def)
qed

lemma unsaved_runAll:
  assumes "\<forall>c \<in> set cs. basic c \<and> \<not> saving c"
    and "sections w = []" and "proto w = None" and "log_end w = None"
  shows "log_end (runAll cs w) = None"
  using assms
proof (induction cs arbitrary: w)
  case Nil
  then show ?case by simp
next
  case (Cons c cs)
  from Cons.prems have "sections (snd (exec c w)) = [] \<and> proto (snd (exec c w)) = None \<and>
      log_end (snd (exec c w)) = None"
    by (simp add: unsaved_exec)
  with Cons.prems(1) show ?case by (simp add: Cons.IH)
qed

lemma distinct_noted:
  assumes "distinct (map fst (snd nj))"
  shows "distinct (map fst (snd (noted clk nj c)))"
proof -
  obtain n j where nj: "nj = (n, j)" by (cases nj)
  show ?thesis
    using assms unfolding nj
    by (cases c) (simp_all add: noteEntry_def distinct_update split: option.splits)
qed

lemma distinct_foldl_noted:
  "distinct (map fst (snd nj)) \<Longrightarrow> distinct (map fst (snd (foldl (noted clk) nj cs)))"
  by (induction cs arbitrary: nj) (simp_all add: distinct_noted)

lemma distinct_recorded: "distinct (map fst (recorded clk cs))"
  unfolding recorded_def by (rule distinct_foldl_noted) simp

lemma map_fst_logs: "map fst (map (\<lambda>(k, s). (k, f s)) xs) = map fst xs"
  by (induction xs) auto

subsection \<open>Runs on the example storage\<close>

lemma stored_log0: "stored log0"
  by (simp add: stored_def log0_def newLog_def)

lemma stored_save:
  assumes "stored w"
  shows "stored (snd (save w))" and "inherited w = [] \<Longrightarrow> fst (save w) = None"
proof -
  from assms have f: "fs w = memfs" "logsPath w = ''/tmp/logs''" "title w = ''Import''"
    "log_start w = clock0 0"
    by (simp_all add: stored_def)
  from assms consider "disk w = ([''/tmp/logs''], [])"
    | "fst (disk w) =
        [''/tmp/logs'', ''/tmp/logs/2024'', ''/tmp/logs/2024/03'', ''/tmp/logs/2024/03/05'']"
    by (auto simp: stored_def)
  then have "fst (disk (snd (save w))) =
      [''/tmp/logs'', ''/tmp/logs/2024'', ''/tmp/logs/2024/03'', ''/tmp/logs/2024/03/05''] \<and>
      (inherited w = [] \<longrightarrow> fst (save w) = None)"
  proof cases
    case 1
    with f show ?thesis
      by (simp add: save_def prepareSave_def render_def inherited_def memfs_def ensureDir_def
          dirname_def clock0_def tick_def now_def dateToString_single dateToString_fileName
          pad2_def numToString_def digits.simps digit_def Let_def
          cong: option.case_cong)
  next
    case 2
    obtain ds fl where d: "disk w = (ds, fl)" by (cases "disk w")
    with 2 f show ?thesis
      by (simp add: save_def prepareSave_def render_def inherited_def memfs_def ensureDir_def
          dirname_def clock0_def tick_def now_def dateToString_single dateToString_fileName
          pad2_def numToString_def digits.simps digit_def Let_def
          cong: option.case_cong)
  qed
  with assms show "stored (snd (save w))" and "inherited w = [] \<Longrightarrow> fst (save w) = None"
    by (simp_all add: stored_def)
qed

subsection \<open>The state a call leaves\<close>

lemma createSection_fields:
  "sections (snd (createSection nm k w)) =
     (if k = ''__proto__'' then sections w
      else AList.update k
             \<lparr>key = k, name = nm, sec_start = clock w (ticks w),
              sec_end = clock w (ticks w + 1), elapsed = None, logs = []\<rparr> (sections w))"
  "proto (snd (createSection nm k w)) =
     (if k = ''__proto__''
      then Some \<lparr>key = k, name = nm, sec_start = clock w (ticks w),
                 sec_end = clock w (ticks w + 1), elapsed = None, logs = []\<rparr>
      else proto w)"
  "ticks (snd (createSection nm k w)) = ticks w + 3"
  "log_end (snd (createSection nm k w)) = Some (clock w (ticks w + 2))"
  "clock (snd (createSection nm k w)) = clock w"
  by (simp_all add: createSection_def Let_def tick_def now_def)

lemma pushLog_fields:
  "sections (snd (pushLog ty k v w)) =
     (case map_of (sections w) k of
        None \<Rightarrow> sections w
      | Some s \<Rightarrow>
          AList.update k
            (s\<lparr>logs := logs s @
               [\<lparr>etype = ty, evalue = v,
                 dateTime = dateToString (clock w (ticks w)) ''dd/mm/yyyy H:i:s''\<rparr>]\<rparr>)
            (sections w))"
  "proto (snd (pushLog ty k v w)) =
     (if map_of (sections w) k = None \<and> k = ''__proto__''
      then map_option
             (\<lambda>s. s\<lparr>logs := logs s @
                     [\<lparr>etype = ty, evalue = v,
                       dateTime = dateToString (clock w (ticks w)) ''dd/mm/yyyy H:i:s''\<rparr>]\<rparr>)
             (proto w)
      else proto w)"
  "ticks (snd (pushLog ty k v w)) = (if section_at w k = None then ticks w + 1 else ticks w + 2)"
  "log_end (snd (pushLog ty k v w)) =
     (if section_at w k = None then log_end w else Some (clock w (ticks w + 1)))"
  "clock (snd (pushLog ty k v w)) = clock w"
  by (auto simp: pushLog_def getLogObject_def Let_def tick_def now_def section_at_def
      put_section_def split: option.splits)

lemma closeSection_fields:
  "sections (snd (closeSection k w)) =
     (case map_of (sections w) k of
        None \<Rightarrow> sections w
      | Some s \<Rightarrow>
          AList.update k
            (s\<lparr>sec_end := clock w (ticks w),
               elapsed := Some (getTime (clock w (ticks w)) - getTime (sec_start s))\<rparr>)
            (sections w))"
  "proto (snd (closeSection k w)) =
     (if map_of (sections w) k = None \<and> k = ''__proto__''
      then map_option
             (\<lambda>s. s\<lparr>sec_end := clock w (ticks w),
                     elapsed := Some (getTime (clock w (ticks w)) - getTime (sec_start s))\<rparr>)
             (proto w)
      else proto w)"
  "objproto_end (snd (closeSection k w)) \<longleftrightarrow>
     objproto_end w \<or> k = ''__proto__'' \<and> section_at w k = None"
  "ticks (snd (closeSection k w)) = (if section_at w k = None then ticks w + 1 else ticks w + 2)"
  "log_end (snd (closeSection k w)) =
     (if section_at w k = None then log_end w else Some (clock w (ticks w + 1)))"
  "clock (snd (closeSection k w)) = clock w"
  by (auto simp: closeSection_def Let_def tick_def now_def section_at_def put_section_def
      split: option.splits)

lemma stored_update [simp]:
  "stored (w\<lparr>ticks := n\<rparr>) = stored w"
  "stored (w\<lparr>sections := S\<rparr>) = stored w"
  "stored (w\<lparr>proto := P\<rparr>) = stored w"
  "stored (w\<lparr>objproto_end := B\<rparr>) = stored w"
  by (simp_all add: stored_def)

lemma stored_createSection:
  assumes "stored w"
  shows "stored (snd (createSection nm k w))"
    and "inherited (snd (createSection nm k w)) = [] \<Longrightarrow> fst (createSection nm k w) = None"
proof -
  let ?s = "\<lparr>key = k, name = nm, sec_start = clock w (ticks w),
      sec_end = clock w (ticks w + 1), elapsed = None, logs = []\<rparr>"
  let ?x = "if k = ''__proto__'' then (tick (tick w))\<lparr>proto := Some ?s\<rparr>
      else (tick (tick w))\<lparr>sections := AList.update k ?s (sections w)\<rparr>"
  have c: "createSection nm k w = save ?x" by (simp add: createSection_def Let_def tick_def)
  from assms have x: "stored ?x" by (simp add: tick_def)
  then show "stored (snd (createSection nm k w))" unfolding c by (rule stored_save(1))
  assume "inherited (snd (createSection nm k w)) = []"
  then have "inherited ?x = []" unfolding c by simp
  with x show "fst (createSection nm k w) = None" unfolding c by (rule stored_save(2))
qed

lemma stored_pushLog:
  assumes "stored w"
  shows "stored (snd (pushLog ty k v w))"
    and "section_at w k \<noteq> None \<Longrightarrow> inherited (snd (pushLog ty k v w)) = [] \<Longrightarrow>
         fst (pushLog ty k v w) = None"
proof -
  let ?l = "\<lparr>etype = ty, evalue = v, dateTime = dateToString (now w) ''dd/mm/yyyy H:i:s''\<rparr>"
  show "stored (snd (pushLog ty k v w))"
  proof (cases "section_at w k")
    case None
    with assms show ?thesis by (simp add: pushLog_missing)
  next
    case (Some s)
    then have "section_at (tick w) k = Some s" by simp
    then have "pushLog ty k v w = save (put_section k (s\<lparr>logs := logs s @ [?l]\<rparr>) (tick w))"
      by (simp add: pushLog_def getLogObject_def Let_def)
    moreover from assms have "stored (put_section k (s\<lparr>logs := logs s @ [?l]\<rparr>) (tick w))"
      by (simp add: put_section_def tick_def)
    ultimately show ?thesis by (simp add: stored_save)
  qed
  show "fst (pushLog ty k v w) = None"
    if "section_at w k \<noteq> None" and inh: "inherited (snd (pushLog ty k v w)) = []"
  proof -
    from that obtain s where "section_at w k = Some s" by auto
    then have "section_at (tick w) k = Some s" by simp
    then have p: "pushLog ty k v w =
        save (put_section k (s\<lparr>logs := logs s @ [?l]\<rparr>) (tick w))"
      by (simp add: pushLog_def getLogObject_def Let_def)
    from assms have "stored (put_section k (s\<lparr>logs := logs s @ [?l]\<rparr>) (tick w))"
      by (simp add: put_section_def tick_def)
    moreover from inh have "inherited (put_section k (s\<lparr>logs := logs s @ [?l]\<rparr>) (tick w)) = []"
      by (simp add: p)
    ultimately show ?thesis unfolding p by (rule stored_save(2))
  qed
qed

lemma stored_closeSection:
  assumes "stored w"
  shows "stored (snd (closeSection k w))"
    and "section_at w k \<noteq> None \<Longrightarrow> inherited (snd (closeSection k w)) = [] \<Longrightarrow>
         fst (closeSection k w) = None"
proof -
  show "stored (snd (closeSection k w))"
  proof (cases "section_at w k")
    case None
    then have "section_at (tick w) k = None" by simp
    with assms show ?thesis by (simp add: closeSection_def Let_def tick_def)
  next
    case (Some s)
    let ?s = "s\<lparr>sec_end := now w, elapsed := Some (getTime (now w) - getTime (sec_start s))\<rparr>"
    from Some have "section_at (tick w) k = Some s" by simp
    then have "closeSection k w = save (put_section k ?s (tick w))"
      by (simp add: closeSection_def Let_def)
    moreover from assms have "stored (put_section k ?s (tick w))"
      by (simp add: put_section_def tick_def)
    ultimately show ?thesis by (simp add: stored_save)
  qed
  show "fst (closeSection k w) = None"
    if "section_at w k \<noteq> None" and inh: "inherited (snd (closeSection k w)) = []"
  proof -
    from that obtain s where "section_at w k = Some s" by auto
    let ?s = "s\<lparr>sec_end := now w, elapsed := Some (getTime (now w) - getTime (sec_start s))\<rparr>"
    from \<open>section_at w k = Some s\<close> have "section_at (tick w) k = Some s" by simp
    then have p: "closeSection k w = save (put_section k ?s (tick w))"
      by (simp add: closeSection_def Let_def)
    from assms have "stored (put_section k ?s (tick w))"
      by (simp add: put_section_def tick_def)
    moreover from inh have "inherited (put_section k ?s (tick w)) = []" by (simp add: p)
    ultimately show ?thesis unfolding p by (rule stored_save(2))
  qed
qed

lemma stored_exec:
  assumes "stored w" and "basic c"
  shows "stored (snd (exec c w))"
  using assms
  by (cases c)
     (simp_all add: stored_createSection stored_closeSection stored_pushLog stored_save
        info_def error_def debug_def)

lemma passes_exec:
  assumes "stored w" and "basic c"
    and "case keyOf c of Some k \<Rightarrow> saving c \<or> section_at w k \<noteq> None | None \<Rightarrow> True"
    and "inherited (snd (exec c w)) = []"
  shows "fst (exec c w) = None"
  using assms
  by (cases c)
     (simp_all add: stored_createSection stored_closeSection stored_pushLog stored_save
        info_def error_def debug_def)

lemma run_Cons_ok: "fst (exec c w) = None \<Longrightarrow> run (c # cs) w = run cs (snd (exec c w))"
  by (cases "exec c w") simp

lemma passes_run:
  assumes "stored w" and "passes cs w"
  shows "run cs w = Inr (runAll cs w)"
  using assms
proof (induction cs arbitrary: w)
  case Nil
  show ?case by simp
next
  case (Cons c cs)
  from Cons.prems have "fst (exec c w) = None" by (simp add: passes_exec)
  then have "run (c # cs) w = run cs (snd (exec c w))" by (rule run_Cons_ok)
  moreover from Cons.prems have "stored (snd (exec c w))" by (simp add: stored_exec)
  moreover from Cons.prems have "passes cs (snd (exec c w))" by simp
  ultimately show ?case by (simp add: Cons.IH del: run.simps)
qed

lemma stored_runAll:
  assumes "stored w" and "\<forall>c \<in> set cs. basic c"
  shows "stored (runAll cs w)"
  using assms by (induction cs arbitrary: w) (simp_all add: stored_exec)

subsection \<open>The characters of the document\<close>

lemma replace_chars: "set (replace pat rep s) \<subseteq> set rep \<union> set s"
proof (induction s)
  case Nil
  show ?case by auto
next
  case (Cons c cs)
  have "set (drop (length pat) (c # cs)) \<subseteq> set (c # cs)" by (rule set_drop_subset)
  with Cons show ?case by auto
qed

lemma foldl_replace_chars:
  assumes "\<forall>(p, r) \<in> set tks. set r \<subseteq> A"
  shows "set (foldl (\<lambda>t (p, r). replace p r t) t tks) \<subseteq> set t \<union> A"
  using assms
proof (induction tks arbitrary: t)
  case Nil
  show ?case by simp
next
  case (Cons a tks)
  obtain p r where a: "a = (p, r)" by (cases a)
  from Cons.prems a have r: "set r \<subseteq> A" and rest: "\<forall>(p, r) \<in> set tks. set r \<subseteq> A"
    by simp_all
  from Cons.IH [OF rest, of "replace p r t"] replace_chars [of p r t] r
  show ?case unfolding a by auto
qed

lemma pad2_chars: "set (pad2 n) \<subseteq> set ''-0123456789''"
proof -
  have z: "CHR ''0'' \<in> set ''-0123456789''" by simp
  have "set (pad2 n) \<subseteq> insert (CHR ''0'') (set (numToString n))" by (auto simp: pad2_def)
  with z numToString_chars [of n] show ?thesis by blast
qed

lemma dateToString_chars: "set (dateToString d t) \<subseteq> set t \<union> set ''-0123456789''"
proof -
  have "\<forall>(p, r) \<in> set (tokens d). set r \<subseteq> set ''-0123456789''"
    unfolding tokens_def using pad2_chars numToString_chars by (simp del: set_simps) simp
  then show ?thesis unfolding dateToString_tokens by (rule foldl_replace_chars)
qed

lemma tilde_stamp: "CHR ''~'' \<notin> set (dateToString d ''dd/mm/yyyy H:i:s'')"
proof
  assume "CHR ''~'' \<in> set (dateToString d ''dd/mm/yyyy H:i:s'')"
  with dateToString_chars [of d "''dd/mm/yyyy H:i:s''"]
  have "CHR ''~'' \<in> set ''dd/mm/yyyy H:i:s'' \<union> set ''-0123456789''" by (rule subsetD)
  then show False by simp
qed

lemma tilde_chunks:
  "CHR ''~'' \<notin> set doc_open" "CHR ''~'' \<notin> set title_sep" "CHR ''~'' \<notin> set doc_style_script"
  "CHR ''~'' \<notin> set h1_close" "CHR ''~'' \<notin> set summary_open" "CHR ''~'' \<notin> set finished_open"
  "CHR ''~'' \<notin> set controls" "CHR ''~'' \<notin> set li_open" "CHR ''~'' \<notin> set li_mid"
  "CHR ''~'' \<notin> set li_close" "CHR ''~'' \<notin> set ul_close" "CHR ''~'' \<notin> set sec_open"
  "CHR ''~'' \<notin> set sec_mid" "CHR ''~'' \<notin> set sec_started" "CHR ''~'' \<notin> set sec_finished"
  "CHR ''~'' \<notin> set sec_logs_open" "CHR ''~'' \<notin> set log_open" "CHR ''~'' \<notin> set log_mid"
  "CHR ''~'' \<notin> set log_date_open" "CHR ''~'' \<notin> set log_date_close"
  "CHR ''~'' \<notin> set log_close" "CHR ''~'' \<notin> set sec_close" "CHR ''~'' \<notin> set doc_close"
  by (simp_all add: doc_open_def title_sep_def doc_style_script_def h1_close_def
      summary_open_def finished_open_def controls_def li_open_def li_mid_def li_close_def
      ul_close_def sec_open_def sec_mid_def sec_started_def sec_finished_def
      sec_logs_open_def log_open_def log_mid_def log_date_open_def log_date_close_def
      log_close_def sec_close_def doc_close_def tabs_def nl_def)

lemma tilde_document:
  assumes "CHR ''~'' \<notin> set (title w)" and "CHR ''~'' \<notin> set (description w)"
    and "\<forall>(k, s) \<in> set (sections w).
           CHR ''~'' \<notin> set (key s) \<and> CHR ''~'' \<notin> set (name s) \<and>
           (\<forall>l \<in> set (logs s).
              CHR ''~'' \<notin> set (etype l) \<and> CHR ''~'' \<notin> set (dateTime l) \<and>
              CHR ''~'' \<notin> set (evalue l))"
  shows "CHR ''~'' \<notin> set (document w e)"
proof -
  have u: "CHR ''~'' \<notin> set undefinedLine"
    by (simp add: undefinedLine_def tilde_chunks)
  have line: "CHR ''~'' \<notin> set (logLine l)"
    if "CHR ''~'' \<notin> set (etype l)" "CHR ''~'' \<notin> set (dateTime l)" "CHR ''~'' \<notin> set (evalue l)"
    for l
    using that by (simp add: logLine_def tilde_chunks)
  have block: "CHR ''~'' \<notin> set (sectionBlock w s) \<and> CHR ''~'' \<notin> set (tocItem s)"
    if "(k, s) \<in> set (sections w)" for k s
  proof -
    from assms(3) that have s: "CHR ''~'' \<notin> set (key s)" "CHR ''~'' \<notin> set (name s)"
      and l: "\<forall>l \<in> set (logs s).
        CHR ''~'' \<notin> set (etype l) \<and> CHR ''~'' \<notin> set (dateTime l) \<and> CHR ''~'' \<notin> set (evalue l)"
      by auto
    from l line have "\<forall>l \<in> set (logs s). CHR ''~'' \<notin> set (logLine l)" by blast
    then have "CHR ''~'' \<notin> set (logsOf w s)" using u by (simp add: logsOf_concat)
    with s show ?thesis
      by (simp add: sectionBlock_def sectionHead_def tocItem_def tilde_chunks tilde_stamp)
  qed
  then have "CHR ''~'' \<notin> set (body w)" and "CHR ''~'' \<notin> set (toc w)"
    by (auto simp: body_concat toc_concat set_for_in)
  with assms(1,2) show ?thesis
    by (simp add: document_def docHead_def tilde_chunks tilde_stamp)
qed

lemma tilde_sublist: "CHR ''~'' \<in> set v \<Longrightarrow> CHR ''~'' \<notin> set s \<Longrightarrow> \<not> sublist v s"
  using set_mono_sublist [of v s] by blast

lemma document_closed:
  "document w e =
     doc_open @ title w @ title_sep @ dateToString (log_start w) ''dd/mm/yyyy H:i:s'' @
     doc_style_script @ title w @ h1_close @ description w @ summary_open @
     dateToString (log_start w) ''dd/mm/yyyy H:i:s'' @ finished_open @
     dateToString e ''dd/mm/yyyy H:i:s'' @ controls @
     concat (map (\<lambda>(k, s). li_open @ key s @ li_mid @ name s @ li_close) (for_in w)) @
     ul_close @
     concat (map (\<lambda>(k, s).
               sec_open @ key s @ sec_mid @ name s @ sec_started @
               dateToString (sec_start s) ''dd/mm/yyyy H:i:s'' @ sec_finished @
               dateToString (sec_end s) ''dd/mm/yyyy H:i:s'' @ sec_logs_open @
               concat (map (\<lambda>l. log_open @ etype l @ log_mid @ etype l @ log_date_open @
                                 dateTime l @ log_date_close @ evalue l @ log_close)
                         (logs s)) @
               (if objproto_end w then undefinedLine else []) @ sec_close)
             (for_in w)) @
     doc_close"
proof -
  have l: "logLine =
      (\<lambda>l. log_open @ etype l @ log_mid @ etype l @ log_date_open @ dateTime l @
           log_date_close @ evalue l @ log_close)"
    by (rule ext) (simp add: logLine_def)
  show ?thesis
    by (simp add: document_def docHead_def toc_concat body_concat tocItem_def sectionBlock_def
        sectionHead_def logsOf_concat l)
qed

lemmas state_simps = createSection_fields pushLog_fields closeSection_fields info_def
  error_def debug_def inherited_def section_at_def log0_fields now_def clock0_stamp

lemma recreated_passes: "passes recreated log0"
  by (simp add: recreated_def state_simps)

lemma shadowed_passes: "passes shadowed log0"
  by (simp add: shadowed_def state_simps)

lemma importRun_passes: "passes importRun log0"
  by (simp add: importRun_def state_simps)

lemma stored_fields:
  assumes "stored w"
  shows "title w = ''Import''" and "description w = ''desc''" and "log_start w = clock0 0"
  using assms by (simp_all add: stored_def)

lemma recreated_fields:
  "sections (runAll recreated log0) =
     [(''P1'', \<lparr>key = ''P1'', name = ''Phase 1'', sec_start = clock0 6, sec_end = clock0 7,
                elapsed = None, logs = []\<rparr>)]"
  "proto (runAll recreated log0) = None" "\<not> objproto_end (runAll recreated log0)"
  "log_end (runAll recreated log0) = Some (clock0 8)"
  by (simp_all add: recreated_def state_simps eval_nat_numeral)

lemma polluted_fields:
  "sections (runAll polluted log0) =
     [(''P1'', \<lparr>key = ''P1'', name = ''Phase 1'', sec_start = clock0 1, sec_end = clock0 2,
                elapsed = None, logs = []\<rparr>),
      (''end'', \<lparr>key = ''end'', name = ''End'', sec_start = clock0 5, sec_end = clock0 6,
                 elapsed = None,
                 logs = [\<lparr>etype = ''INFO'', evalue = ''x'', dateTime = ''05/03/2024 9:7:3''\<rparr>]\<rparr>)]"
  "proto (runAll polluted log0) = None" "objproto_end (runAll polluted log0)"
  "log_end (runAll polluted log0) = Some (clock0 9)"
  by (simp_all add: polluted_def state_simps eval_nat_numeral)

lemma shadowed_fields:
  "sections (runAll shadowed log0) =
     [(''key'', \<lparr>key = ''key'', name = ''K'', sec_start = clock0 1, sec_end = clock0 2,
                 elapsed = None, logs = []\<rparr>),
      (''name'', \<lparr>key = ''name'', name = ''N'', sec_start = clock0 4, sec_end = clock0 5,
                  elapsed = None, logs = []\<rparr>),
      (''start'', \<lparr>key = ''start'', name = ''S'', sec_start = clock0 7, sec_end = clock0 8,
                   elapsed = None, logs = []\<rparr>),
      (''end'', \<lparr>key = ''end'', name = ''E'', sec_start = clock0 10, sec_end = clock0 11,
                 elapsed = None, logs = []\<rparr>),
      (''elapsed'', \<lparr>key = ''elapsed'', name = ''L'', sec_start = clock0 13,
                     sec_end = clock0 14, elapsed = None, logs = []\<rparr>),
      (''logs'', \<lparr>key = ''logs'', name = ''G'', sec_start = clock0 16, sec_end = clock0 17,
                  elapsed = None, logs = []\<rparr>)]"
  "proto (runAll shadowed log0) =
     Some \<lparr>key = ''__proto__'', name = ''X'', sec_start = clock0 19, sec_end = clock0 20,
           elapsed = None,
           logs = [\<lparr>etype = ''INFO'', evalue = ''~hidden~'',
                    dateTime = ''05/03/2024 9:7:3''\<rparr>]\<rparr>"
  "\<not> objproto_end (runAll shadowed log0)"
  "log_end (runAll shadowed log0) = Some (clock0 23)"
  by (simp_all add: shadowed_def state_simps eval_nat_numeral)

lemma pushLog_reaches:
  assumes "k \<noteq> ''__proto__''" and "pushLog ty k v w = (None, w')"
  obtains s where "map_of (sections w) k = Some s"
proof (cases "map_of (sections w) k")
  case None
  with assms(1) have "section_at w k = None" by (simp add: section_at_def)
  then have "pushLog ty k v w = (Some TypeError, w\<lparr>ticks := ticks w + 1\<rparr>)"
    by (rule pushLog_missing)
  with assms(2) show ?thesis by simp
next
  case (Some s)
  then show ?thesis by (rule that)
qed

lemma block_line: "l \<in> set (logs s) \<Longrightarrow> sublist (logLine l) (sectionBlock w s)"
proof -
  assume "l \<in> set (logs s)"
  then have "logLine l \<in> set (map logLine (logs s))" by simp
  then have "sublist (logLine l) (concat (map logLine (logs s)))" by (rule sublist_concat)
  then have "sublist (logLine l)
      (sectionHead s @ concat (map logLine (logs s)) @
       ((if objproto_end w then undefinedLine else []) @ sec_close))"
    by (rule sublist_in)
  then show ?thesis by (simp add: sectionBlock_def logsOf_concat)
qed

lemma chunk_ends:
  \<open>suffix ''<h1>'' doc_style_script\<close> \<open>suffix ''<p>'' h1_close\<close>
  \<open>suffix ''<li><a href="#'' li_open\<close> \<open>suffix ''<h2 id="'' sec_open\<close>
  \<open>suffix ''<div class="'' log_open\<close>
  unfolding doc_style_script_def h1_close_def li_open_def sec_open_def log_open_def
  by (intro suffix_appendI suffix_order.refl)+

subsection \<open>Entries in the document\<close>




text \<open>
  Claim C10, as the code has it. The document \<^verbatim>\<open>_render\<close> produces is the text of the
  template with the title (twice) and the description of the logger, the key and the
  name of each section (in the table of contents and in the heading of its block) and
  the type, the \<^verbatim>\<open>dateTime\<close> and the value of each entry put in character for character,
  with no escaping, each at its place: the title between \<^verbatim>\<open><h1>\<close> and \<^verbatim>\<open> log</h1>\<close>, the
  description between \<^verbatim>\<open><p>\<close> and \<^verbatim>\<open></p>\<close>, the key after \<^verbatim>\<open><h2 id="\<close>, the name before
  \<^verbatim>\<open></h2>\<close>, the value between \<^verbatim>\<open>): \<close> and \<^verbatim>\<open></div>\<close>. So each of them is a contiguous part
  of the document. After an entry method has returned normally for a key other than
  \<^verbatim>\<open>"__proto__"\<close>, the document of the resulting state, which is the document the call has
  written to the file of the logger, contains the line of the entry and in it the value
  it was given, markup included.
\<close>

theorem render_embeds_text_verbatim:
  \<open>(\<forall>html. render w = Inr html \<longrightarrow>
      (\<exists>e. log_end w = Some e \<and>
         html =
           doc_open @ title w @ title_sep @ dateToString (log_start w) ''dd/mm/yyyy H:i:s'' @
           doc_style_script @ title w @ h1_close @ description w @ summary_open @
           dateToString (log_start w) ''dd/mm/yyyy H:i:s'' @ finished_open @
           dateToString e ''dd/mm/yyyy H:i:s'' @ controls @
           concat (map (\<lambda>(k, s). li_open @ key s @ li_mid @ name s @ li_close) (for_in w)) @
           ul_close @
           concat (map (\<lambda>(k, s).
                     sec_open @ key s @ sec_mid @ name s @ sec_started @
                     dateToString (sec_start s) ''dd/mm/yyyy H:i:s'' @ sec_finished @
                     dateToString (sec_end s) ''dd/mm/yyyy H:i:s'' @ sec_logs_open @
                     concat (map (\<lambda>l. log_open @ etype l @ log_mid @ etype l @
                                       log_date_open @ dateTime l @ log_date_close @
                                       evalue l @ log_close)
                               (logs s)) @
                     (if objproto_end w then undefinedLine else []) @ sec_close)
                   (for_in w)) @
           doc_close) \<and>
      sublist (title w) html \<and> sublist (description w) html \<and>
      (\<forall>(k, s) \<in> set (sections w).
         sublist (key s) html \<and> sublist (name s) html \<and>
         (\<forall>l \<in> set (logs s). sublist (evalue l) html))) \<and>
   (\<forall>ty k v w'. k \<noteq> ''__proto__'' \<and> pushLog ty k v w = (None, w') \<longrightarrow>
      (\<exists>html d. render w' = Inr html \<and> sublist v html \<and>
         sublist (logLine \<lparr>etype = ty, evalue = v,
                           dateTime = dateToString (now w) ''dd/mm/yyyy H:i:s''\<rparr>) html \<and>
         writeFileSync (fs w) d (pathOf w) html = Some (disk w'))) \<and>
   (\<forall>k v w'. k \<noteq> ''__proto__'' \<and>
        (info k v w = (None, w') \<or> error k v w = (None, w') \<or> debug k v w = (None, w')) \<longrightarrow>
      (\<exists>html d. render w' = Inr html \<and> sublist v html \<and>
         writeFileSync (fs w) d (pathOf w) html = Some (disk w'))) \<and>
   suffix ''<h1>'' doc_style_script \<and> prefix '' log</h1>'' h1_close \<and>
   suffix ''<p>'' h1_close \<and> prefix ''</p>'' summary_open \<and>
   suffix ''<li><a href="#'' li_open \<and> li_mid = ''">'' \<and> prefix ''</a></li>'' li_close \<and>
   suffix ''<h2 id="'' sec_open \<and> sec_mid = ''" style="display: inline-block;">'' \<and>
   prefix ''</h2>'' sec_started \<and>
   suffix ''<div class="'' log_open \<and> log_mid = '' islog">'' \<and> log_date_open = '' ('' \<and>
   log_date_close = ''): '' \<and> prefix ''</div>'' log_close\<close>
proof -
  have one: \<open>\<forall>html. render w = Inr html \<longrightarrow>
      (\<exists>e. log_end w = Some e \<and>
         html =
           doc_open @ title w @ title_sep @ dateToString (log_start w) ''dd/mm/yyyy H:i:s'' @
           doc_style_script @ title w @ h1_close @ description w @ summary_open @
           dateToString (log_start w) ''dd/mm/yyyy H:i:s'' @ finished_open @
           dateToString e ''dd/mm/yyyy H:i:s'' @ controls @
           concat (map (\<lambda>(k, s). li_open @ key s @ li_mid @ name s @ li_close) (for_in w)) @
           ul_close @
           concat (map (\<lambda>(k, s).
                     sec_open @ key s @ sec_mid @ name s @ sec_started @
                     dateToString (sec_start s) ''dd/mm/yyyy H:i:s'' @ sec_finished @
                     dateToString (sec_end s) ''dd/mm/yyyy H:i:s'' @ sec_logs_open @
                     concat (map (\<lambda>l. log_open @ etype l @ log_mid @ etype l @
                                       log_date_open @ dateTime l @ log_date_close @
                                       evalue l @ log_close)
                               (logs s)) @
                     (if objproto_end w then undefinedLine else []) @ sec_close)
                   (for_in w)) @
           doc_close) \<and>
      sublist (title w) html \<and> sublist (description w) html \<and>
      (\<forall>(k, s) \<in> set (sections w).
         sublist (key s) html \<and> sublist (name s) html \<and>
         (\<forall>l \<in> set (logs s). sublist (evalue l) html))\<close>
  proof (intro allI impI)
    fix html
    assume "render w = Inr html"
    then obtain e where e: "log_end w = Some e" and html: "html = document w e"
      by (rule render_document)
    have t: "sublist (title w) html" unfolding html by (rule document_title)
    have d: "sublist (description w) html" unfolding html by (rule document_description)
    have s: "\<forall>(k, s) \<in> set (sections w).
        sublist (key s) html \<and> sublist (name s) html \<and>
        (\<forall>l \<in> set (logs s). sublist (evalue l) html)"
    proof (clarify, intro conjI ballI)
      fix k s
      assume "(k, s) \<in> set (sections w)"
      then have blk: "sublist (sectionBlock w s) html"
        unfolding html by (rule document_block)
      from block_key blk show "sublist (key s) html" by (rule sublist_trans)
      from block_name blk show "sublist (name s) html" by (rule sublist_trans)
      fix l
      assume "l \<in> set (logs s)"
      then have "sublist (evalue l) (sectionBlock w s)" by (rule block_value)
      then show "sublist (evalue l) html" using blk by (rule sublist_trans)
    qed
    from e html [unfolded document_closed] t d s
    show \<open>(\<exists>e. log_end w = Some e \<and>
         html =
           doc_open @ title w @ title_sep @ dateToString (log_start w) ''dd/mm/yyyy H:i:s'' @
           doc_style_script @ title w @ h1_close @ description w @ summary_open @
           dateToString (log_start w) ''dd/mm/yyyy H:i:s'' @ finished_open @
           dateToString e ''dd/mm/yyyy H:i:s'' @ controls @
           concat (map (\<lambda>(k, s). li_open @ key s @ li_mid @ name s @ li_close) (for_in w)) @
           ul_close @
           concat (map (\<lambda>(k, s).
                     sec_open @ key s @ sec_mid @ name s @ sec_started @
                     dateToString (sec_start s) ''dd/mm/yyyy H:i:s'' @ sec_finished @
                     dateToString (sec_end s) ''dd/mm/yyyy H:i:s'' @ sec_logs_open @
                     concat (map (\<lambda>l. log_open @ etype l @ log_mid @ etype l @
                                       log_date_open @ dateTime l @ log_date_close @
                                       evalue l @ log_close)
                               (logs s)) @
                     (if objproto_end w then undefinedLine else []) @ sec_close)
                   (for_in w)) @
           doc_close) \<and>
      sublist (title w) html \<and> sublist (description w) html \<and>
      (\<forall>(k, s) \<in> set (sections w).
         sublist (key s) html \<and> sublist (name s) html \<and>
         (\<forall>l \<in> set (logs s). sublist (evalue l) html))\<close>
      by blast
  qed
  have two: "\<forall>ty k v w'. k \<noteq> ''__proto__'' \<and> pushLog ty k v w = (None, w') \<longrightarrow>
      (\<exists>html d. render w' = Inr html \<and> sublist v html \<and>
         sublist (logLine \<lparr>etype = ty, evalue = v,
                           dateTime = dateToString (now w) ''dd/mm/yyyy H:i:s''\<rparr>) html \<and>
         writeFileSync (fs w) d (pathOf w) html = Some (disk w'))"
  proof (intro allI impI)
    fix ty k v w'
    assume a: "k \<noteq> ''__proto__'' \<and> pushLog ty k v w = (None, w')"
    then have push: "pushLog ty k v w = (None, w')" and k: "k \<noteq> ''__proto__''" by simp_all
    from k push obtain s where s: "map_of (sections w) k = Some s" by (rule pushLog_reaches)
    let ?l = "\<lparr>etype = ty, evalue = v, dateTime = dateToString (now w) ''dd/mm/yyyy H:i:s''\<rparr>"
    let ?s = "s\<lparr>logs := logs s @ [?l]\<rparr>"
    let ?w = "w\<lparr>ticks := ticks w + 1, sections := AList.update k ?s (sections w)\<rparr>"
    from push have sv: "save ?w = (None, w')" by (simp add: pushLog_own [OF s])
    then have w': "w' = snd (save ?w)" and ok: "fst (save ?w) = None" by simp_all
    from ok have r: "render w' = Inr (document w' (now ?w))"
      unfolding w' by (rule render_after_save)
    have "map_of (sections w') k = Some ?s" by (simp add: w' update_conv')
    then have "(k, ?s) \<in> set (sections w')" by (rule map_of_SomeD)
    then have blk: "sublist (sectionBlock w' ?s) (document w' (now ?w))"
      by (rule document_block)
    have "sublist (evalue ?l) (sectionBlock w' ?s)" by (rule block_value) simp
    with blk have v: "sublist v (document w' (now ?w))"
      using sublist_trans by fastforce
    have "sublist (logLine ?l) (sectionBlock w' ?s)" by (rule block_line) simp
    then have l: "sublist (logLine ?l) (document w' (now ?w))"
      using blk by (rule sublist_trans)
    from save_writes [OF ok] obtain d where
      "writeFileSync (fs ?w) d (pathOf ?w) (document w' (now ?w)) = Some (disk w')"
      unfolding w' by blast
    then have "writeFileSync (fs w) d (pathOf w) (document w' (now ?w)) = Some (disk w')"
      by (simp add: pathOf_def)
    with r v l show "\<exists>html d. render w' = Inr html \<and> sublist v html \<and>
        sublist (logLine ?l) html \<and> writeFileSync (fs w) d (pathOf w) html = Some (disk w')"
      by blast
  qed
  have three: \<open>prefix '' log</h1>'' h1_close\<close> \<open>prefix ''</p>'' summary_open\<close>
    \<open>li_mid = ''">''\<close> \<open>prefix ''</a></li>'' li_close\<close>
    \<open>sec_mid = ''" style="display: inline-block;">''\<close> \<open>prefix ''</h2>'' sec_started\<close>
    \<open>log_mid = '' islog">''\<close> \<open>log_date_open = '' (''\<close> \<open>log_date_close = ''): ''\<close>
    \<open>prefix ''</div>'' log_close\<close>
    by (simp_all add: h1_close_def summary_open_def li_mid_def li_close_def sec_mid_def
        sec_started_def log_mid_def log_date_open_def log_date_close_def log_close_def)
  have methods: "\<forall>k v w'. k \<noteq> ''__proto__'' \<and>
        (info k v w = (None, w') \<or> error k v w = (None, w') \<or> debug k v w = (None, w')) \<longrightarrow>
      (\<exists>html d. render w' = Inr html \<and> sublist v html \<and>
         writeFileSync (fs w) d (pathOf w) html = Some (disk w'))"
  proof (intro allI impI)
    fix k v w'
    assume a: "k \<noteq> ''__proto__'' \<and>
        (info k v w = (None, w') \<or> error k v w = (None, w') \<or> debug k v w = (None, w'))"
    then obtain ty where "pushLog ty k v w = (None, w')"
      unfolding info_def error_def debug_def by blast
    with a two show "\<exists>html d. render w' = Inr html \<and> sublist v html \<and>
        writeFileSync (fs w) d (pathOf w) html = Some (disk w')"
      by blast
  qed
  from one two methods chunk_ends three show ?thesis by (intro conjI)
qed

theorem render_embeds_text_verbatim_witness:
  \<open>render log2 = Inr (document log2 (clock0 5)) \<and>
   document log2 (clock0 5) =
     doc_open @ ''Import'' @ title_sep @ ''05/03/2024 9:7:3'' @ doc_style_script @
     ''Import'' @ h1_close @ ''desc'' @ summary_open @ ''05/03/2024 9:7:3'' @ finished_open @
     ''05/03/2024 9:7:3'' @ controls @
     (li_open @ ''P1'' @ li_mid @ ''Phase 1'' @ li_close) @ ul_close @
     (sec_open @ ''P1'' @ sec_mid @ ''Phase 1'' @ sec_started @ ''05/03/2024 9:7:3'' @
      sec_finished @ ''05/03/2024 9:7:3'' @ sec_logs_open @
      (log_open @ ''INFO'' @ log_mid @ ''INFO'' @ log_date_open @ ''05/03/2024 9:7:3'' @
       log_date_close @ ''<b>started</b>'' @ log_close) @
      sec_close) @
     doc_close \<and>
   sublist ''Import'' (document log2 (clock0 5)) \<and>
   sublist ''desc'' (document log2 (clock0 5)) \<and>
   sublist ''P1'' (document log2 (clock0 5)) \<and>
   sublist ''Phase 1'' (document log2 (clock0 5)) \<and>
   sublist ''<b>started</b>'' (document log2 (clock0 5)) \<and>
   pushLog ''INFO'' ''P1'' ''<b>started</b>'' log1 = (None, log2) \<and>
   info ''P1'' ''<b>started</b>'' log1 = (None, log2) \<and>
   (\<exists>html d. render log2 = Inr html \<and> sublist ''<b>started</b>'' html \<and>
      sublist (logLine \<lparr>etype = ''INFO'', evalue = ''<b>started</b>'',
                        dateTime = ''05/03/2024 9:7:3''\<rparr>) html \<and>
      writeFileSync memfs d ''/tmp/logs/2024/03/05/Import_20240305_973.html'' html =
        Some (disk log2))\<close>
proof -
  let ?s = "\<lparr>key = ''P1'', name = ''Phase 1'', sec_start = clock0 1, sec_end = clock0 2,
      elapsed = None,
      logs = [\<lparr>etype = ''INFO'', evalue = ''<b>started</b>'',
               dateTime = ''05/03/2024 9:7:3''\<rparr>]\<rparr>"
  let ?l = "\<lparr>etype = ''INFO'', evalue = ''<b>started</b>'', dateTime = ''05/03/2024 9:7:3''\<rparr>"
  let ?doc = "document log2 (clock0 5)"
  have start: "log_start log2 = clock0 0"
    using sameInstance_pushLog [of log1 "''INFO''" "''P1''" "''<b>started</b>''"]
    by (simp add: log2_def info_def sameInstance_def log1_fields)
  note at2 = render_embeds_text_verbatim [of log2, THEN conjunct1, rule_format, OF render_log2]
  from at2 obtain e where e: "log_end log2 = Some e" and doc: "?doc =
      doc_open @ title log2 @ title_sep @ dateToString (log_start log2) ''dd/mm/yyyy H:i:s'' @
      doc_style_script @ title log2 @ h1_close @ description log2 @ summary_open @
      dateToString (log_start log2) ''dd/mm/yyyy H:i:s'' @ finished_open @
      dateToString e ''dd/mm/yyyy H:i:s'' @ controls @
      concat (map (\<lambda>(k, s). li_open @ key s @ li_mid @ name s @ li_close) (for_in log2)) @
      ul_close @
      concat (map (\<lambda>(k, s).
                sec_open @ key s @ sec_mid @ name s @ sec_started @
                dateToString (sec_start s) ''dd/mm/yyyy H:i:s'' @ sec_finished @
                dateToString (sec_end s) ''dd/mm/yyyy H:i:s'' @ sec_logs_open @
                concat (map (\<lambda>l. log_open @ etype l @ log_mid @ etype l @
                                  log_date_open @ dateTime l @ log_date_close @
                                  evalue l @ log_close)
                          (logs s)) @
                (if objproto_end log2 then undefinedLine else []) @ sec_close)
              (for_in log2)) @
      doc_close"
    by blast
  from e have "e = clock0 5" by (simp add: log2_fields)
  with doc have closed: "?doc =
     doc_open @ ''Import'' @ title_sep @ ''05/03/2024 9:7:3'' @ doc_style_script @
     ''Import'' @ h1_close @ ''desc'' @ summary_open @ ''05/03/2024 9:7:3'' @ finished_open @
     ''05/03/2024 9:7:3'' @ controls @
     (li_open @ ''P1'' @ li_mid @ ''Phase 1'' @ li_close) @ ul_close @
     (sec_open @ ''P1'' @ sec_mid @ ''Phase 1'' @ sec_started @ ''05/03/2024 9:7:3'' @
      sec_finished @ ''05/03/2024 9:7:3'' @ sec_logs_open @
      (log_open @ ''INFO'' @ log_mid @ ''INFO'' @ log_date_open @ ''05/03/2024 9:7:3'' @
       log_date_close @ ''<b>started</b>'' @ log_close) @
      sec_close) @
     doc_close"
    by (simp add: for_in_log2 log2_fields start clock0_stamp)
  from at2 have top: "sublist (title log2) ?doc" "sublist (description log2) ?doc"
    and all: "\<forall>(k, s) \<in> set (sections log2).
      sublist (key s) ?doc \<and> sublist (name s) ?doc \<and>
      (\<forall>l \<in> set (logs s). sublist (evalue l) ?doc)"
    by blast+
  have "(''P1'', ?s) \<in> set (sections log2)" by (simp add: log2_fields)
  with all have sec: "sublist (key ?s) ?doc" "sublist (name ?s) ?doc"
    "\<forall>l \<in> set (logs ?s). sublist (evalue l) ?doc"
    by blast+
  from sec(3) have v: "sublist (evalue ?l) ?doc" by simp
  have push: "pushLog ''INFO'' ''P1'' ''<b>started</b>'' log1 = (None, log2)"
    using log2_ok by (simp add: info_def)
  then have "''P1'' \<noteq> ''__proto__'' \<and>
      pushLog ''INFO'' ''P1'' ''<b>started</b>'' log1 = (None, log2)"
    by simp
  from render_embeds_text_verbatim [of log1, THEN conjunct2, THEN conjunct1, rule_format,
      OF this]
  have "\<exists>html d. render log2 = Inr html \<and> sublist ''<b>started</b>'' html \<and>
      sublist (logLine \<lparr>etype = ''INFO'', evalue = ''<b>started</b>'',
                        dateTime = dateToString (now log1) ''dd/mm/yyyy H:i:s''\<rparr>) html \<and>
      writeFileSync (fs log1) d (pathOf log1) html = Some (disk log2)" .
  then have written: "\<exists>html d. render log2 = Inr html \<and> sublist ''<b>started</b>'' html \<and>
      sublist (logLine ?l) html \<and>
      writeFileSync memfs d ''/tmp/logs/2024/03/05/Import_20240305_973.html'' html =
        Some (disk log2)"
    by (simp only: log1_fields pathOf_log1 now_def clock0_stamp)
  from top sec(1,2) v have subs: "sublist ''Import'' ?doc" "sublist ''desc'' ?doc"
    "sublist ''P1'' ?doc" "sublist ''Phase 1'' ?doc" "sublist ''<b>started</b>'' ?doc"
    by (simp_all add: log2_fields)
  from render_log2 closed subs push log2_ok written show ?thesis by (intro conjI)
qed

text \<open>
  The claim as it is written fails for an entry under the key \<^verbatim>\<open>"__proto__"\<close>. After
  sections with the keys \<^verbatim>\<open>key\<close>, \<^verbatim>\<open>name\<close>, \<^verbatim>\<open>start\<close>, \<^verbatim>\<open>end\<close>, \<^verbatim>\<open>elapsed\<close> and \<^verbatim>\<open>logs\<close> and
  \<^verbatim>\<open>createSection("X", "__proto__")\<close>, the call \<^verbatim>\<open>info("__proto__", "~hidden~")\<close> returns
  normally and appends its entry to the record that is the prototype of \<^verbatim>\<open>this.sections\<close>;
  that record is no property of \<^verbatim>\<open>this.sections\<close>, and the value is no part of the
  document.
\<close>

theorem entry_under_proto_counterexample:
  "run shadowed log0 = Inr (runAll shadowed log0) \<and>
   last shadowed = Info ''__proto__'' ''~hidden~'' \<and>
   proto (runAll shadowed log0) =
     Some \<lparr>key = ''__proto__'', name = ''X'', sec_start = clock0 19, sec_end = clock0 20,
           elapsed = None,
           logs = [\<lparr>etype = ''INFO'', evalue = ''~hidden~'',
                    dateTime = ''05/03/2024 9:7:3''\<rparr>]\<rparr> \<and>
   render (runAll shadowed log0) = Inr (document (runAll shadowed log0) (clock0 23)) \<and>
   \<not> sublist ''~hidden~'' (document (runAll shadowed log0) (clock0 23))"
proof -
  have basic: "\<forall>c \<in> set shadowed. basic c" by (simp add: shadowed_def)
  have c1: "run shadowed log0 = Inr (runAll shadowed log0)"
    using stored_log0 shadowed_passes by (rule passes_run)
  have c2: "last shadowed = Info ''__proto__'' ''~hidden~''" by (simp add: shadowed_def)
  have c3: "render (runAll shadowed log0) = Inr (document (runAll shadowed log0) (clock0 23))"
    by (simp add: render_def inherited_def shadowed_fields)
  have "stored (runAll shadowed log0)"
    using stored_log0 basic by (rule stored_runAll)
  then have "CHR ''~'' \<notin> set (document (runAll shadowed log0) (clock0 23))"
    by (intro tilde_document) (simp_all add: stored_fields shadowed_fields)
  then have c4: "\<not> sublist ''~hidden~'' (document (runAll shadowed log0) (clock0 23))"
    by (intro tilde_sublist) simp_all
  from c1 c2 shadowed_fields(2) c3 c4 show ?thesis by (intro conjI)
qed

subsection \<open>The order of the sections\<close>

text \<open>
  Claim C2, as the code has it. For every sequence of \<^verbatim>\<open>createSection\<close> calls on a new
  logger that returns normally, with distinct keys none of which is an array index (a
  canonical decimal numeral below \<open>2\<^sup>3\<^sup>2 - 1\<close>) or \<^verbatim>\<open>"__proto__"\<close>, the sections are
  listed first-created-first-shown, in the table of contents and in the body: the links
  and the blocks stand in the order of creation.
\<close>

theorem sections_listed_in_creation_order:
  assumes "run (map (\<lambda>(nm, k). CreateSection nm k) nks) (newLog t d p api dk clk) = Inr w"
    and "distinct (map snd nks)"
    and "\<forall>(nm, k) \<in> set nks. \<not> isArrayIndex k \<and> k \<noteq> ''__proto__''"
  shows "map (\<lambda>(k, s). (name s, key s)) (for_in w) = nks \<and>
         toc w = concat (map (\<lambda>(nm, k). li_open @ k @ li_mid @ nm @ li_close) nks) \<and>
         body w = concat (map (\<lambda>(k, s). sectionBlock w s) (for_in w))"
proof -
  from assms(3) have np: "\<forall>(nm, k) \<in> set nks. k \<noteq> ''__proto__''" by auto
  have "snd ` set nks \<inter> fst ` set (sections (newLog t d p api dk clk)) = {}"
    by (simp add: newLog_def)
  from run_creates [OF assms(1) np assms(2) this]
  have shown: "map (\<lambda>(k, s). (k, name s, key s)) (sections w) = map (\<lambda>(nm, k). (k, nm, k)) nks"
    by (simp add: newLog_def)
  have keys: "map fst (sections w) = map snd nks"
    using arg_cong [OF shown, of "map fst"] by (simp add: case_prod_unfold comp_def)
  have "\<forall>(k, s) \<in> set (sections w). \<not> isArrayIndex k"
  proof (clarify)
    fix k s
    assume "(k, s) \<in> set (sections w)" and idx: "isArrayIndex k"
    then have "k \<in> set (map fst (sections w))" by force
    with keys have "k \<in> snd ` set nks" by simp
    with assms(3) idx show False by auto
  qed
  then have plain: "for_in w = sections w" by (rule for_in_plain)
  have order: "map (\<lambda>(k, s). (name s, key s)) (for_in w) = nks"
    using arg_cong [OF shown, of "map snd"] by (simp add: plain case_prod_unfold comp_def)
  have "toc w = concat (map (\<lambda>(nm, k). li_open @ k @ li_mid @ nm @ li_close)
      (map (\<lambda>(k, s). (name s, key s)) (for_in w)))"
    by (simp add: toc_concat tocItem_def case_prod_unfold comp_def)
  with order show ?thesis by (simp add: body_concat)
qed

theorem sections_listed_in_creation_order_witness:
  "run (map (\<lambda>(nm, k). CreateSection nm k) [(''First'', ''b''), (''Second'', ''a'')]) log0 =
     Inr logBA \<and>
   distinct (map snd [(''First'', ''b''), (''Second'', ''a'')]) \<and>
   \<not> isArrayIndex ''b'' \<and> \<not> isArrayIndex ''a'' \<and>
   map (\<lambda>(k, s). (name s, key s)) (for_in logBA) = [(''First'', ''b''), (''Second'', ''a'')] \<and>
   toc logBA =
     li_open @ ''b'' @ li_mid @ ''First'' @ li_close @
     li_open @ ''a'' @ li_mid @ ''Second'' @ li_close"
proof -
  have run: "run (map (\<lambda>(nm, k). CreateSection nm k) [(''First'', ''b''), (''Second'', ''a'')])
      (newLog ''Import'' ''desc'' ''/tmp/logs'' memfs ([''/tmp/logs''], []) clock0) = Inr logBA"
    using logBA_ok by (simp add: log0_def)
  have d: "distinct (map snd [(''First'', ''b''), (''Second'', ''a'')])" by simp
  have idx: "\<not> isArrayIndex ''b''" "\<not> isArrayIndex ''a''"
    by (simp_all add: isArrayIndex_def)
  then have ok: "\<forall>(nm, k) \<in> set [(''First'', ''b''), (''Second'', ''a'')].
      \<not> isArrayIndex k \<and> k \<noteq> ''__proto__''"
    by simp
  note order = sections_listed_in_creation_order [OF run d ok]
  from order have "map (\<lambda>(k, s). (name s, key s)) (for_in logBA) =
      [(''First'', ''b''), (''Second'', ''a'')]"
    by blast
  moreover from order have "toc logBA =
      li_open @ ''b'' @ li_mid @ ''First'' @ li_close @
      li_open @ ''a'' @ li_mid @ ''Second'' @ li_close"
    by simp
  moreover have "run (map (\<lambda>(nm, k). CreateSection nm k) [(''First'', ''b''), (''Second'', ''a'')])
      log0 = Inr logBA"
    using run by (simp only: log0_def)
  ultimately show ?thesis using d idx by blast
qed

text \<open>
  The claim as it is written fails for keys that are array indices: the loop
  \<^verbatim>\<open>for (var i in this.sections)\<close> visits such keys first, in ascending numeric order,
  whatever the order of their creation. After \<^verbatim>\<open>createSection("First", "2")\<close> and
  \<^verbatim>\<open>createSection("Second", "1")\<close> the section \<^verbatim>\<open>Second\<close> is listed before the section
  \<^verbatim>\<open>First\<close>.
\<close>

theorem sections_order_counterexample:
  "run [CreateSection ''First'' ''2'', CreateSection ''Second'' ''1''] log0 = Inr log21 \<and>
   map (\<lambda>(k, s). (name s, key s)) (for_in log21) = [(''Second'', ''1''), (''First'', ''2'')] \<and>
   toc log21 =
     li_open @ ''1'' @ li_mid @ ''Second'' @ li_close @
     li_open @ ''2'' @ li_mid @ ''First'' @ li_close"
proof -
  have idx: "isArrayIndex ''1''" "isArrayIndex ''2''" "parseInt ''1'' = 1" "parseInt ''2'' = 2"
    by (simp_all add: isArrayIndex_def parseInt_def digitVal_def numToString_def digits.simps
        digit_def)
  have "sections log21 =
      [(''2'', \<lparr>key = ''2'', name = ''First'', sec_start = clock0 1, sec_end = clock0 2,
                elapsed = None, logs = []\<rparr>),
       (''1'', \<lparr>key = ''1'', name = ''Second'', sec_start = clock0 4, sec_end = clock0 5,
                elapsed = None, logs = []\<rparr>)]"
    by (simp add: log21_def createSection_own log0_fields eval_nat_numeral)
  then have "for_in log21 =
      [(''1'', \<lparr>key = ''1'', name = ''Second'', sec_start = clock0 4, sec_end = clock0 5,
                elapsed = None, logs = []\<rparr>),
       (''2'', \<lparr>key = ''2'', name = ''First'', sec_start = clock0 1, sec_end = clock0 2,
                elapsed = None, logs = []\<rparr>)]"
    by (simp add: for_in_def idx)
  then have "map (\<lambda>(k, s). (name s, key s)) (for_in log21) =
        [(''Second'', ''1''), (''First'', ''2'')]"
    and "toc log21 =
       li_open @ ''1'' @ li_mid @ ''Second'' @ li_close @
       li_open @ ''2'' @ li_mid @ ''First'' @ li_close"
    by (simp_all add: toc_concat tocItem_def)
  with log21_ok show ?thesis by blast
qed

subsection \<open>Entries on a missing section\<close>

text \<open>
  Claim C3. For every state of the logger and every key \<open>k\<close> under which there is no
  section, \<^verbatim>\<open>info(k, v)\<close>, \<^verbatim>\<open>error(k, v)\<close> and \<^verbatim>\<open>debug(k, v)\<close> raise a \<^verbatim>\<open>TypeError\<close>, and the
  state they leave is the state they found but for the clock reading \<^verbatim>\<open>_getLogObject\<close>
  took: the sections and the storage are untouched, no save was run. (The key
  \<^verbatim>\<open>"EXCEPTIONS"\<close> is no exception here: only \<^verbatim>\<open>errorException\<close> and \<^verbatim>\<open>debugException\<close>
  create that section. A section is under \<open>k\<close> when \<^verbatim>\<open>this.sections[k]\<close> is a section
  record, see \<open>section_at\<close>.)
\<close>

theorem entry_on_missing_section_fails_before_save:
  assumes "section_at w k = None"
  shows "info k v w = (Some TypeError, w\<lparr>ticks := ticks w + 1\<rparr>) \<and>
         error k v w = (Some TypeError, w\<lparr>ticks := ticks w + 1\<rparr>) \<and>
         debug k v w = (Some TypeError, w\<lparr>ticks := ticks w + 1\<rparr>)"
  using pushLog_missing [OF assms] by (simp add: info_def error_def debug_def)

theorem entry_on_missing_section_fails_before_save_witness:
  "section_at log0 ''P1'' = None \<and>
   info ''P1'' ''started'' log0 = (Some TypeError, log0\<lparr>ticks := ticks log0 + 1\<rparr>) \<and>
   disk (snd (info ''P1'' ''started'' log0)) = ([''/tmp/logs''], []) \<and>
   sections (snd (info ''P1'' ''started'' log0)) = []"
proof -
  have none: "section_at log0 ''P1'' = None"
    by (simp add: section_at_def log0_def newLog_def)
  from entry_on_missing_section_fails_before_save [OF none, of "''started''"]
  have "info ''P1'' ''started'' log0 = (Some TypeError, log0\<lparr>ticks := ticks log0 + 1\<rparr>)"
    by blast
  with none show ?thesis by (simp add: log0_def newLog_def)
qed

subsection \<open>Closing a section\<close>

text \<open>
  Claim C5. For every key \<open>k\<close>: when there is no section under \<open>k\<close>, \<^verbatim>\<open>closeSection(k)\<close>
  raises a \<^verbatim>\<open>TypeError\<close>; when there is one, \<^verbatim>\<open>closeSection(k)\<close> sets its \<^verbatim>\<open>end\<close> to the
  current time and its \<^verbatim>\<open>elapsed\<close> to \<^verbatim>\<open>end.getTime() - start.getTime()\<close>, an integer
  number of milliseconds that is not negative when the clock at the close is not behind
  the start of the section.
\<close>

theorem closeSection_sets_end_and_elapsed:
  "(section_at w k = None \<longrightarrow> fst (closeSection k w) = Some TypeError) \<and>
   (\<forall>s. section_at w k = Some s \<longrightarrow>
      section_at (snd (closeSection k w)) k =
        Some (s\<lparr>sec_end := now w,
                elapsed := Some (getTime (now w) - getTime (sec_start s))\<rparr>) \<and>
      elapsedAt (snd (closeSection k w)) k = Some (getTime (now w) - getTime (sec_start s)) \<and>
      (getTime (sec_start s) \<le> getTime (now w) \<longrightarrow>
         (\<exists>ms. elapsedAt (snd (closeSection k w)) k = Some ms \<and> 0 \<le> ms)))"
proof (intro conjI allI impI)
  assume "section_at w k = None"
  then have "section_at (tick w) k = None" by simp
  then show "fst (closeSection k w) = Some TypeError"
    by (simp add: closeSection_def Let_def)
next
  fix s
  assume s: "section_at w k = Some s"
  then have at: "section_at (tick w) k = Some s" by simp
  let ?s' = "s\<lparr>sec_end := now w, elapsed := Some (getTime (now w) - getTime (sec_start s))\<rparr>"
  from at have "closeSection k w = save (put_section k ?s' (tick w))"
    by (simp add: closeSection_def Let_def)
  with section_at_put [OF at, of ?s']
  show closed: "section_at (snd (closeSection k w)) k = Some ?s'" by simp
  then show el: "elapsedAt (snd (closeSection k w)) k =
      Some (getTime (now w) - getTime (sec_start s))"
    by (simp add: elapsedAt_def)
  assume "getTime (sec_start s) \<le> getTime (now w)"
  with el show "\<exists>ms. elapsedAt (snd (closeSection k w)) k = Some ms \<and> 0 \<le> ms"
    by simp
qed

theorem closeSection_sets_end_and_elapsed_witness:
  "section_at log0 ''P1'' = None \<and> fst (closeSection ''P1'' log0) = Some TypeError \<and>
   section_at log1 ''P1'' =
     Some \<lparr>key = ''P1'', name = ''Phase 1'', sec_start = clock0 1, sec_end = clock0 2,
           elapsed = None, logs = []\<rparr> \<and>
   getTime (clock0 1) \<le> getTime (now log1) \<and>
   elapsedAt (snd (closeSection ''P1'' log1)) ''P1'' = Some 3"
proof -
  have none: "section_at log0 ''P1'' = None"
    by (simp add: section_at_def log0_def newLog_def)
  have at: "section_at log1 ''P1'' =
      Some \<lparr>key = ''P1'', name = ''Phase 1'', sec_start = clock0 1, sec_end = clock0 2,
            elapsed = None, logs = []\<rparr>"
    by (simp add: log1_def createSection_def section_at_def tick_def log0_def newLog_def
        eval_nat_numeral)
  have nw: "now log1 = clock0 4"
    by (simp add: log1_def createSection_def now_def tick_def log0_def newLog_def
        eval_nat_numeral)
  note all = closeSection_sets_end_and_elapsed [of log0 "''P1''"]
    closeSection_sets_end_and_elapsed [of log1 "''P1''"]
  from all(1) none have "fst (closeSection ''P1'' log0) = Some TypeError" by blast
  moreover from all(2) at have "elapsedAt (snd (closeSection ''P1'' log1)) ''P1'' =
      Some (getTime (now log1) - getTime (clock0 1))"
    by simp
  ultimately show ?thesis using none at by (simp add: nw clock0_def)
qed

subsection \<open>Creating a section\<close>




subsection \<open>The path of the file\<close>

text \<open>
  Claim C4, as the code has it. Every \<^verbatim>\<open>save()\<close> of one logger derives the path of its
  file from \<^verbatim>\<open>logsPath\<close>, \<^verbatim>\<open>title\<close> and the \<^verbatim>\<open>start\<close> fixed at construction alone, with the
  shape \<^verbatim>\<open>logsPath/YYYY/MM/DD/<title>_<YYYYMMDD>_<H><m><s>.html\<close>: month and day are padded
  to two digits, the hour, the minute and the second are plain numerals. So at any two
  moments of a run \<^verbatim>\<open>_prepareSave\<close> returns the same path, and a save that succeeds has
  written its document to that path.
\<close>

theorem save_path_fixed_by_start:
  assumes "run cs w = Inr w2"
  shows "(\<forall>p a. prepareSave w = (Inr p, a) \<longrightarrow> p = pathOf w) \<and>
         (\<forall>p a. prepareSave w2 = (Inr p, a) \<longrightarrow> p = pathOf w) \<and>
         (fst (save w2) = None \<longrightarrow>
            (\<exists>d. writeFileSync (fs w2) d (pathOf w) (document (snd (save w2)) (now w2)) =
                   Some (disk (snd (save w2)))))"
proof -
  from assms have "sameInstance w w2" by (rule sameInstance_run)
  then have same: "pathOf w2 = pathOf w" by (simp add: sameInstance_def pathOf_def)
  have "fst (save w2) = None \<longrightarrow>
      (\<exists>d. writeFileSync (fs w2) d (pathOf w2) (document (snd (save w2)) (now w2)) =
             Some (disk (snd (save w2))))"
    by (auto dest: save_writes)
  with same show ?thesis by (auto dest: prepareSave_path)
qed

theorem save_path_fixed_by_start_witness:
  "run [CreateSection ''Phase 1'' ''P1''] log0 = Inr log1 \<and>
   fst (prepareSave log0) = Inr ''/tmp/logs/2024/03/05/Import_20240305_973.html'' \<and>
   fst (prepareSave log1) = Inr ''/tmp/logs/2024/03/05/Import_20240305_973.html'' \<and>
   fst (save log1) = None"
proof -
  have run: "run [CreateSection ''Phase 1'' ''P1''] log0 = Inr log1"
    by (simp add: log1_ok)
  have path: "pathOf log0 = ''/tmp/logs/2024/03/05/Import_20240305_973.html''"
    by (simp add: pathOf_def log0_fields clock0_def pad2_def numToString_def digits.simps
        digit_def)
  have p0: "\<exists>p a. prepareSave log0 = (Inr p, a)"
    by (simp add: eval_defs)
  have p1: "\<exists>p a. prepareSave log1 = (Inr p, a)"
    by (simp add: log1_def eval_defs)
  have s1: "fst (save log1) = None"
    by (simp add: log1_def eval_defs)
  from save_path_fixed_by_start [OF run] p0 p1 path s1 show ?thesis
    by (metis fst_conv run)
qed

text \<open>
  The shape the claim gives, with two digits for each of hour, minute and second, is
  not the shape of the code: for a logger started at 09:07:03 the file name ends in
  \<^verbatim>\<open>_973.html\<close>, not in \<^verbatim>\<open>_090703.html\<close>.
\<close>

theorem save_path_counterexample:
  "fst (prepareSave log0) = Inr ''/tmp/logs/2024/03/05/Import_20240305_973.html'' \<and>
   paddedPath log0 = ''/tmp/logs/2024/03/05/Import_20240305_090703.html''"
  by (simp add: eval_defs paddedPath_def)

subsection \<open>The section of the exceptions\<close>

text \<open>
  Claim C6. \<^verbatim>\<open>errorException\<close> and \<^verbatim>\<open>debugException\<close> are \<^verbatim>\<open>_logException\<close> with the types
  \<^verbatim>\<open>ERROR\<close> and \<^verbatim>\<open>DEBUG\<close>. A call that returns normally on a logger without the section
  \<^verbatim>\<open>"EXCEPTIONS"\<close> leaves that section created, named \<^verbatim>\<open>Unhandled exceptions\<close>, started at
  the first clock reading of the call, holding the one entry, and closed. A call that
  returns normally on a logger that has the section leaves the same section with its
  \<^verbatim>\<open>start\<close>, its name and its earlier entries, the new entry appended, and closed again:
  \<^verbatim>\<open>elapsed\<close> is the time from the unchanged \<^verbatim>\<open>start\<close> of the section to the new close.
\<close>

theorem exceptions_section_created_once:
  "errorException m = logException ''ERROR'' m \<and>
   debugException m = logException ''DEBUG'' m \<and>
   (map_of (sections w) ''EXCEPTIONS'' = None \<and> logException ty m w = (None, w') \<longrightarrow>
      map_of (sections w') ''EXCEPTIONS'' =
        Some \<lparr>key = ''EXCEPTIONS'', name = ''Unhandled exceptions'',
              sec_start = clock w (ticks w), sec_end = clock w (ticks w + 5),
              elapsed = Some (getTime (clock w (ticks w + 5)) - getTime (clock w (ticks w))),
              logs = [\<lparr>etype = ty, evalue = m,
                       dateTime = dateToString (clock w (ticks w + 3)) ''dd/mm/yyyy H:i:s''\<rparr>]\<rparr>) \<and>
   (\<forall>s. map_of (sections w) ''EXCEPTIONS'' = Some s \<and> logException ty m w = (None, w') \<longrightarrow>
      map_of (sections w') ''EXCEPTIONS'' =
        Some (s\<lparr>logs := logs s @
                 [\<lparr>etype = ty, evalue = m,
                   dateTime = dateToString (clock w (ticks w)) ''dd/mm/yyyy H:i:s''\<rparr>],
               sec_end := clock w (ticks w + 2),
               elapsed := Some (getTime (clock w (ticks w + 2)) - getTime (sec_start s))\<rparr>))"
proof (intro conjI allI impI)
  show "errorException m = logException ''ERROR'' m"
    by (simp add: errorException_def)
  show "debugException m = logException ''DEBUG'' m"
    by (simp add: debugException_def)
next
  assume a: "map_of (sections w) ''EXCEPTIONS'' = None \<and> logException ty m w = (None, w')"
  then have "map_of (sections w) ''EXCEPTIONS'' = None" and "logException ty m w = (None, w')"
    by simp_all
  then show "map_of (sections w') ''EXCEPTIONS'' =
      Some \<lparr>key = ''EXCEPTIONS'', name = ''Unhandled exceptions'',
            sec_start = clock w (ticks w), sec_end = clock w (ticks w + 5),
            elapsed = Some (getTime (clock w (ticks w + 5)) - getTime (clock w (ticks w))),
            logs = [\<lparr>etype = ty, evalue = m,
                     dateTime = dateToString (clock w (ticks w + 3)) ''dd/mm/yyyy H:i:s''\<rparr>]\<rparr>"
    by (rule logException_first(1))
next
  fix s
  assume a: "map_of (sections w) ''EXCEPTIONS'' = Some s \<and> logException ty m w = (None, w')"
  then have "map_of (sections w) ''EXCEPTIONS'' = Some s" and "logException ty m w = (None, w')"
    by simp_all
  then show "map_of (sections w') ''EXCEPTIONS'' =
      Some (s\<lparr>logs := logs s @
               [\<lparr>etype = ty, evalue = m,
                 dateTime = dateToString (clock w (ticks w)) ''dd/mm/yyyy H:i:s''\<rparr>],
             sec_end := clock w (ticks w + 2),
             elapsed := Some (getTime (clock w (ticks w + 2)) - getTime (sec_start s))\<rparr>)"
    by (rule logException_later(1))
qed

theorem exceptions_section_created_once_witness:
  "map_of (sections log0) ''EXCEPTIONS'' = None \<and>
   logException ''ERROR'' ''boom'' log0 = (None, logE1) \<and>
   map_of (sections logE1) ''EXCEPTIONS'' =
     Some \<lparr>key = ''EXCEPTIONS'', name = ''Unhandled exceptions'',
           sec_start = clock0 1, sec_end = clock0 6, elapsed = Some 5,
           logs = [\<lparr>etype = ''ERROR'', evalue = ''boom'', dateTime = ''05/03/2024 9:7:3''\<rparr>]\<rparr> \<and>
   logException ''DEBUG'' ''again'' logE1 = (None, logE2) \<and>
   map_of (sections logE2) ''EXCEPTIONS'' =
     Some \<lparr>key = ''EXCEPTIONS'', name = ''Unhandled exceptions'',
           sec_start = clock0 1, sec_end = clock0 10, elapsed = Some 9,
           logs = [\<lparr>etype = ''ERROR'', evalue = ''boom'', dateTime = ''05/03/2024 9:7:3''\<rparr>,
                   \<lparr>etype = ''DEBUG'', evalue = ''again'', dateTime = ''05/03/2024 9:7:3''\<rparr>]\<rparr>"
proof -
  have absent: "map_of (sections log0) ''EXCEPTIONS'' = None"
    by (simp add: log0_fields)
  note first = exceptions_section_created_once [of "''boom''" log0 "''ERROR''" logE1]
  from first absent logE1_ok
  have "map_of (sections logE1) ''EXCEPTIONS'' =
      Some \<lparr>key = ''EXCEPTIONS'', name = ''Unhandled exceptions'',
            sec_start = clock log0 (ticks log0), sec_end = clock log0 (ticks log0 + 5),
            elapsed = Some (getTime (clock log0 (ticks log0 + 5)) -
                            getTime (clock log0 (ticks log0))),
            logs = [\<lparr>etype = ''ERROR'', evalue = ''boom'',
                     dateTime = dateToString (clock log0 (ticks log0 + 3))
                       ''dd/mm/yyyy H:i:s''\<rparr>]\<rparr>"
    by blast
  then have e1: "map_of (sections logE1) ''EXCEPTIONS'' =
      Some \<lparr>key = ''EXCEPTIONS'', name = ''Unhandled exceptions'',
            sec_start = clock0 1, sec_end = clock0 6, elapsed = Some 5,
            logs = [\<lparr>etype = ''ERROR'', evalue = ''boom'', dateTime = ''05/03/2024 9:7:3''\<rparr>]\<rparr>"
    by (simp add: log0_fields clock0_stamp) (simp add: clock0_def)
  note later = exceptions_section_created_once [of "''again''" logE1 "''DEBUG''" logE2]
  from later e1 logE2_ok
  have "map_of (sections logE2) ''EXCEPTIONS'' =
      Some (\<lparr>key = ''EXCEPTIONS'', name = ''Unhandled exceptions'',
             sec_start = clock0 1, sec_end = clock0 6, elapsed = Some 5,
             logs = [\<lparr>etype = ''ERROR'', evalue = ''boom'',
                      dateTime = ''05/03/2024 9:7:3''\<rparr>]\<rparr>
            \<lparr>logs := [\<lparr>etype = ''ERROR'', evalue = ''boom'', dateTime = ''05/03/2024 9:7:3''\<rparr>] @
               [\<lparr>etype = ''DEBUG'', evalue = ''again'',
                 dateTime = dateToString (clock logE1 (ticks logE1)) ''dd/mm/yyyy H:i:s''\<rparr>],
             sec_end := clock logE1 (ticks logE1 + 2),
             elapsed := Some (getTime (clock logE1 (ticks logE1 + 2)) - getTime (clock0 1))\<rparr>)"
    by auto
  then have e2: "map_of (sections logE2) ''EXCEPTIONS'' =
      Some \<lparr>key = ''EXCEPTIONS'', name = ''Unhandled exceptions'',
            sec_start = clock0 1, sec_end = clock0 10, elapsed = Some 9,
            logs = [\<lparr>etype = ''ERROR'', evalue = ''boom'', dateTime = ''05/03/2024 9:7:3''\<rparr>,
                    \<lparr>etype = ''DEBUG'', evalue = ''again'', dateTime = ''05/03/2024 9:7:3''\<rparr>]\<rparr>"
    by (simp add: logE1_fields clock0_stamp) (simp add: clock0_def)
  from absent e1 e2 logE1_ok logE2_ok show ?thesis by simp
qed

subsection \<open>The date formatter\<close>

text \<open>
  Claim C8. The date formatter zero-pads the day and the month to two digits and leaves
  the year, the hour, the minute and the second unpadded: for the timestamp
  2024-03-05T09:07:03 and the template \<^verbatim>\<open>dd/mm/yyyy H:i:s\<close> it returns \<^verbatim>\<open>05/03/2024 9:7:3\<close>.
  The tokens \<^verbatim>\<open>dd\<close> and \<^verbatim>\<open>mm\<close> give the padded day and month, two characters long for every
  calendar day and month; the tokens \<^verbatim>\<open>yyyy\<close>, \<^verbatim>\<open>H\<close>, \<^verbatim>\<open>i\<close> and \<^verbatim>\<open>s\<close> give the plain decimal
  numeral, one character long for a value below ten.
\<close>

theorem dateToString_pads_day_and_month_only:
  "dateToString \<lparr>getTime = t, getFullYear = 2024, getMonth = 2, getDate = 5,
                  getHours = 9, getMinutes = 7, getSeconds = 3\<rparr> ''dd/mm/yyyy H:i:s'' =
     ''05/03/2024 9:7:3'' \<and>
   dateToString d ''dd'' = pad2 (getDate d) \<and>
   dateToString d ''mm'' = pad2 (getMonth d + 1) \<and>
   (1 \<le> getDate d \<and> getDate d \<le> 31 \<longrightarrow> length (dateToString d ''dd'') = 2) \<and>
   (0 \<le> getMonth d \<and> getMonth d \<le> 11 \<longrightarrow> length (dateToString d ''mm'') = 2) \<and>
   dateToString d ''yyyy'' = numToString (getFullYear d) \<and>
   dateToString d ''H'' = numToString (getHours d) \<and>
   dateToString d ''i'' = numToString (getMinutes d) \<and>
   dateToString d ''s'' = numToString (getSeconds d) \<and>
   (0 \<le> getHours d \<and> getHours d < 10 \<longrightarrow> length (dateToString d ''H'') = 1) \<and>
   (0 \<le> getMinutes d \<and> getMinutes d < 10 \<longrightarrow> length (dateToString d ''i'') = 1) \<and>
   (0 \<le> getSeconds d \<and> getSeconds d < 10 \<longrightarrow> length (dateToString d ''s'') = 1)"
proof -
  have example: "dateToString \<lparr>getTime = t, getFullYear = 2024, getMonth = 2, getDate = 5,
      getHours = 9, getMinutes = 7, getSeconds = 3\<rparr> ''dd/mm/yyyy H:i:s'' = ''05/03/2024 9:7:3''"
    by (simp add: dateToString_stamp pad2_def numToString_def digits.simps digit_def)
  have short: "0 \<le> n \<Longrightarrow> n < 10 \<Longrightarrow> length (numToString n) = 1" for n
    by (simp add: numToString_def length_digits_1)
  show ?thesis
    using example by (simp add: dateToString_single length_pad2 short)
qed

theorem dateToString_pads_day_and_month_only_witness:
  "1 \<le> getDate (clock0 0) \<and> getDate (clock0 0) \<le> 31 \<and>
   length (dateToString (clock0 0) ''dd'') = 2 \<and>
   0 \<le> getMonth (clock0 0) \<and> getMonth (clock0 0) \<le> 11 \<and>
   length (dateToString (clock0 0) ''mm'') = 2 \<and>
   0 \<le> getHours (clock0 0) \<and> getHours (clock0 0) < 10 \<and>
   length (dateToString (clock0 0) ''H'') = 1 \<and>
   0 \<le> getMinutes (clock0 0) \<and> getMinutes (clock0 0) < 10 \<and>
   length (dateToString (clock0 0) ''i'') = 1 \<and>
   0 \<le> getSeconds (clock0 0) \<and> getSeconds (clock0 0) < 10 \<and>
   length (dateToString (clock0 0) ''s'') = 1"
proof -
  have fields: "getDate (clock0 0) = 5" "getMonth (clock0 0) = 2" "getHours (clock0 0) = 9"
    "getMinutes (clock0 0) = 7" "getSeconds (clock0 0) = 3"
    by (simp_all add: clock0_def)
  have day: "1 \<le> getDate (clock0 0) \<and> getDate (clock0 0) \<le> 31"
    and month: "0 \<le> getMonth (clock0 0) \<and> getMonth (clock0 0) \<le> 11"
    and hours: "0 \<le> getHours (clock0 0) \<and> getHours (clock0 0) < 10"
    and minutes: "0 \<le> getMinutes (clock0 0) \<and> getMinutes (clock0 0) < 10"
    and seconds: "0 \<le> getSeconds (clock0 0) \<and> getSeconds (clock0 0) < 10"
    by (simp_all add: fields)
  note all = dateToString_pads_day_and_month_only [of 0 "clock0 0"]
  from all day have "length (dateToString (clock0 0) ''dd'') = 2" by blast
  moreover from all month have "length (dateToString (clock0 0) ''mm'') = 2" by blast
  moreover from all hours have "length (dateToString (clock0 0) ''H'') = 1" by blast
  moreover from all minutes have "length (dateToString (clock0 0) ''i'') = 1" by blast
  moreover from all seconds have "length (dateToString (clock0 0) ''s'') = 1" by blast
  ultimately show ?thesis using day month hours minutes seconds by blast
qed

text \<open>
  Claim C9. For every template and timestamp, the date formatter replaces the tokens
  \<^verbatim>\<open>dd\<close>, \<^verbatim>\<open>mm\<close>, \<^verbatim>\<open>yyyy\<close>, \<^verbatim>\<open>H\<close>, \<^verbatim>\<open>i\<close>, \<^verbatim>\<open>s\<close> literally and in that fixed order, and only the
  first occurrence of each. The replacement of the code is, for every pattern and every
  string, the replacement at the first place at which the pattern stands: the least index
  at which the string goes on with the pattern, whatever stands before it; where there
  is no such index the pattern is no part of the string, which stays as it is. The
  formatter makes these replacements one after the other, for the six tokens in their
  order. So in a template with the same token twice, and no other token, the first
  occurrence is substituted and the second is left verbatim.
\<close>

theorem dateToString_replaces_first_occurrence_only:
  "(\<forall>pat rep s. replace pat rep s = replaceFirst pat rep s) \<and>
   (\<forall>pat s i. firstIndex pat s = Some i \<longrightarrow>
      i \<le> length s \<and> prefix pat (drop i s) \<and> (\<forall>j<i. \<not> prefix pat (drop j s))) \<and>
   (\<forall>pat s. firstIndex pat s = None \<longrightarrow> \<not> sublist pat s) \<and>
   dateToString d template =
     foldl (\<lambda>t (tok, v). replaceFirst tok v t) template (tokens d) \<and>
   (\<forall>(tok, v) \<in> set (tokens d). \<forall>pre mid post.
      (\<forall>j<length pre. \<not> prefix tok (drop j (pre @ tok @ mid @ tok @ post))) \<and>
      (\<forall>(tok', v') \<in> set (tokens d).
         tok' \<noteq> tok \<longrightarrow> \<not> sublist tok' (pre @ tok @ mid @ tok @ post)) \<longrightarrow>
      dateToString d (pre @ tok @ mid @ tok @ post) = pre @ v @ mid @ tok @ post)"
proof -
  have one: "\<forall>pat rep s. replace pat rep s = replaceFirst pat rep s"
    by (simp add: replace_replaceFirst)
  have two: "\<forall>pat s i. firstIndex pat s = Some i \<longrightarrow>
      i \<le> length s \<and> prefix pat (drop i s) \<and> (\<forall>j<i. \<not> prefix pat (drop j s))"
    using firstIndex_Some by blast
  have three: "\<forall>pat s. firstIndex pat s = None \<longrightarrow> \<not> sublist pat s"
    using firstIndex_None by blast
  have "(\<lambda>t (tok, v). replace tok v t) = (\<lambda>t (tok, v). replaceFirst tok v t)"
    by (simp add: replace_replaceFirst)
  then have four: "dateToString d template =
      foldl (\<lambda>t (tok, v). replaceFirst tok v t) template (tokens d)"
    by (simp add: dateToString_tokens)
  have five: "\<forall>(tok, v) \<in> set (tokens d). \<forall>pre mid post.
      (\<forall>j<length pre. \<not> prefix tok (drop j (pre @ tok @ mid @ tok @ post))) \<and>
      (\<forall>(tok', v') \<in> set (tokens d).
         tok' \<noteq> tok \<longrightarrow> \<not> sublist tok' (pre @ tok @ mid @ tok @ post)) \<longrightarrow>
      dateToString d (pre @ tok @ mid @ tok @ post) = pre @ v @ mid @ tok @ post"
  proof (clarify)
    fix tok v pre mid post
    assume "(tok, v) \<in> set (tokens d)"
      and "\<forall>j<length pre. \<not> prefix tok (drop j (pre @ tok @ mid @ tok @ post))"
      and "\<forall>(tok', v') \<in> set (tokens d).
         tok' \<noteq> tok \<longrightarrow> \<not> sublist tok' (pre @ tok @ mid @ tok @ post)"
    then show "dateToString d (pre @ tok @ mid @ tok @ post) = pre @ v @ mid @ tok @ post"
      by (rule dateToString_token_twice)
  qed
  from one two three four five show ?thesis by (intro conjI)
qed

theorem dateToString_replaces_first_occurrence_only_witness:
  "replace ''dd'' ''05'' ''d dd'' = replaceFirst ''dd'' ''05'' ''d dd'' \<and>
   replace ''dd'' ''05'' ''d dd'' = ''d 05'' \<and>
   firstIndex ''dd'' ''d dd dd'' = Some 2 \<and>
   prefix ''dd'' (drop 2 ''d dd dd'') \<and>
   \<not> prefix ''dd'' (drop 0 ''d dd dd'') \<and> \<not> prefix ''dd'' (drop 1 ''d dd dd'') \<and>
   firstIndex ''mm'' ''d dd dd'' = None \<and> \<not> sublist ''mm'' ''d dd dd'' \<and>
   (''dd'', ''05'') \<in> set (tokens (clock0 0)) \<and>
   dateToString (clock0 0) ''d dd dd'' = ''d 05 dd'' \<and>
   dateToString (clock0 0) ''dd/mm/yyyy dd'' = ''05/03/2024 dd'' \<and>
   dateToString (clock0 0) ''day dd'' = ''day 05''"
proof -
  note all = dateToString_replaces_first_occurrence_only [of "clock0 0" "''d dd dd''"]
  note c1 = all [THEN conjunct1, rule_format]
  note c2 = all [THEN conjunct2, THEN conjunct1, rule_format]
  note c3 = all [THEN conjunct2, THEN conjunct2, THEN conjunct1, rule_format]
  note c5 = all [THEN conjunct2, THEN conjunct2, THEN conjunct2, THEN conjunct2]
  have tok: "tokens (clock0 0) =
      [(''dd'', ''05''), (''mm'', ''03''), (''yyyy'', ''2024''), (''H'', ''9''), (''i'', ''7''),
       (''s'', ''3'')]"
    by (simp add: tokens_def clock0_def pad2_def numToString_def digits.simps digit_def)
  have fi: "firstIndex ''dd'' ''d dd dd'' = Some 2" "firstIndex ''mm'' ''d dd dd'' = None"
    by (simp_all add: firstIndex_Cons firstIndex_Nil)
  have r1: "replace ''dd'' ''05'' ''d dd'' = replaceFirst ''dd'' ''05'' ''d dd''"
    by (rule c1)
  have r2: "replaceFirst ''dd'' ''05'' ''d dd'' = ''d 05''"
    by (simp add: replaceFirst_def firstIndex_Cons firstIndex_Nil)
  from c2 [OF fi(1)] have least: "prefix ''dd'' (drop 2 ''d dd dd'')"
    "\<forall>j<2. \<not> prefix ''dd'' (drop j ''d dd dd'')"
    by (rule conjunct1 [OF conjunct2], rule conjunct2 [OF conjunct2])
  have l0: "\<not> prefix ''dd'' (drop 0 ''d dd dd'')"
    using least(2) [rule_format, of 0] by (simp del: drop0)
  have l1: "\<not> prefix ''dd'' (drop 1 ''d dd dd'')"
    using least(2) [rule_format, of 1] by (simp del: drop_Suc_Cons One_nat_def)
  have none: "\<not> sublist ''mm'' ''d dd dd''" using fi(2) by (rule c3)
  have e: "''d '' @ ''dd'' @ '' '' @ ''dd'' @ [] = ''d dd dd''" by simp
  have l: "length ''d '' = 2" by simp
  have first: "\<forall>j<length ''d ''. \<not> prefix ''dd'' (drop j (''d '' @ ''dd'' @ '' '' @ ''dd'' @ []))"
    unfolding e l by (rule least(2))
  have absent: "\<not> sublist ''mm'' ''d dd dd''" "\<not> sublist ''yyyy'' ''d dd dd''"
    "\<not> sublist ''H'' ''d dd dd''" "\<not> sublist ''i'' ''d dd dd''" "\<not> sublist ''s'' ''d dd dd''"
    by (simp_all add: sublist_Cons_right)
  have others: "\<forall>(tok', v') \<in> set (tokens (clock0 0)).
      tok' \<noteq> ''dd'' \<longrightarrow> \<not> sublist tok' (''d '' @ ''dd'' @ '' '' @ ''dd'' @ [])"
    unfolding e tok using absent by simp
  have mem: "(''dd'', ''05'') \<in> set (tokens (clock0 0))" by (simp add: tok)
  from bspec [OF c5 mem] have "\<forall>pre mid post.
      (\<forall>j<length pre. \<not> prefix ''dd'' (drop j (pre @ ''dd'' @ mid @ ''dd'' @ post))) \<and>
      (\<forall>(tok', v') \<in> set (tokens (clock0 0)).
         tok' \<noteq> ''dd'' \<longrightarrow> \<not> sublist tok' (pre @ ''dd'' @ mid @ ''dd'' @ post)) \<longrightarrow>
      dateToString (clock0 0) (pre @ ''dd'' @ mid @ ''dd'' @ post) =
        pre @ ''05'' @ mid @ ''dd'' @ post"
    by (simp only: prod.case)
  from this [rule_format, of "''d ''" "'' ''" "[]", OF conjI [OF first others]]
  have d: "dateToString (clock0 0) ''d dd dd'' = ''d 05 dd''" by simp
  note c4 = dateToString_replaces_first_occurrence_only
    [THEN conjunct2, THEN conjunct2, THEN conjunct2, THEN conjunct1]
  have e1: "dateToString (clock0 0) ''dd/mm/yyyy dd'' = ''05/03/2024 dd''"
    unfolding c4 [of "clock0 0" "''dd/mm/yyyy dd''"]
    by (simp add: tok replaceFirst_def firstIndex_Cons firstIndex_Nil)
  have e2: "dateToString (clock0 0) ''day dd'' = ''day 05''"
    unfolding c4 [of "clock0 0" "''day dd''"]
    by (simp add: tok replaceFirst_def firstIndex_Cons firstIndex_Nil)
  from r1 r2 fi least(1) l0 l1 none mem d e1 e2 show ?thesis by simp
qed

end
